theory Spec2Isabelle
  imports Main
begin

section \<open>JavaScript values\<close>

text \<open>
  The two programs, \<^verbatim>\<open>migrate_records.js\<close> and its sibling \<^verbatim>\<open>part_000\<close>, are Node.js
  scripts. A JavaScript string is modelled as a \<^typ>\<open>string\<close>: a list of 8-bit code units,
  the Latin-1 range of the UTF-16 code units of the source language. Both regular
  expressions and \<^verbatim>\<open>parseInt\<close> only ever distinguish ASCII characters (and the no-break
  space U+00A0 as white space), so a code unit above U+00FF behaves as any other
  character that is neither a digit, a word character nor white space.

  The value of a column of a fetched row is absent (\<^verbatim>\<open>undefined\<close>), SQL NULL, a boolean
  or a text. The spec's data model (section 3) declares every column but \<^verbatim>\<open>id\<close> as text,
  the numeric ones as numeric-as-text; numbers and JSON values in those columns are
  outside this model.
\<close>

datatype jsval = JUndefined | JNull | JBool bool | JStr string

text \<open>ToBoolean: the empty string is falsy, every other string is truthy.\<close>

fun truthy :: "jsval \<Rightarrow> bool" where
  "truthy JUndefined = False"
| "truthy JNull = False"
| "truthy (JBool b) = b"
| "truthy (JStr s) = (s \<noteq> [])"

text \<open>\<^verbatim>\<open>a || b\<close> on column values.\<close>

definition jsOr :: "jsval \<Rightarrow> jsval \<Rightarrow> jsval" where
  "jsOr a b = (if truthy a then a else b)"

fun ToString :: "jsval \<Rightarrow> string" where
  "ToString JUndefined = ''undefined''"
| "ToString JNull = ''null''"
| "ToString (JBool b) = (if b then ''true'' else ''false'')"
| "ToString (JStr s) = s"

text \<open>
  The Number values \<^verbatim>\<open>parseInt\<close> can return: NaN, an integer-valued double, or an
  infinity. \<^verbatim>\<open>-0\<close> and \<^verbatim>\<open>+0\<close> are both \<open>JInt 0\<close>: the programs only test them for
  truthiness, where they agree.
\<close>

datatype jsnum = JNaN | JInt int | JPosInf | JNegInf

fun truthyNum :: "jsnum \<Rightarrow> bool" where
  "truthyNum JNaN = False"
| "truthyNum (JInt n) = (n \<noteq> 0)"
| "truthyNum JPosInf = True"
| "truthyNum JNegInf = True"

text \<open>The exceptions of the language that the two functions can meet.\<close>

datatype js_error = TypeError | RangeError

subsection \<open>Characters\<close>

definition isDigit :: "char \<Rightarrow> bool" where
  "isDigit c = (48 \<le> (of_char c :: nat) \<and> (of_char c :: nat) \<le> 57)"

definition isAsciiAlpha :: "char \<Rightarrow> bool" where
  "isAsciiAlpha c = ((65 \<le> (of_char c :: nat) \<and> (of_char c :: nat) \<le> 90)
     \<or> (97 \<le> (of_char c :: nat) \<and> (of_char c :: nat) \<le> 122))"

text \<open>The class \<^verbatim>\<open>\w\<close> of a regular expression without the unicode flag: \<^verbatim>\<open>[A-Za-z0-9_]\<close>.\<close>

definition isWordChar :: "char \<Rightarrow> bool" where
  "isWordChar c = (isDigit c \<or> isAsciiAlpha c \<or> c = CHR ''_'')"

text \<open>White space and line terminators of the language, within the 8-bit range.\<close>

definition isWhiteSpace :: "char \<Rightarrow> bool" where
  "isWhiteSpace c = ((of_char c :: nat) \<in> {9, 10, 11, 12, 13, 32, 160})"

definition digitVal :: "char \<Rightarrow> nat" where
  "digitVal c = (of_char c :: nat) - 48"

definition decimalValue :: "string \<Rightarrow> nat" where
  "decimalValue ds = foldl (\<lambda>a c. a * 10 + digitVal c) 0 ds"

definition toLower :: "char \<Rightarrow> char" where
  "toLower c =
     (case map_of (zip ''ABCDEFGHIJKLMNOPQRSTUVWXYZ'' ''abcdefghijklmnopqrstuvwxyz'') c of
        Some l \<Rightarrow> l
      | None \<Rightarrow> c)"

definition startsWith :: "string \<Rightarrow> string \<Rightarrow> bool" where
  "startsWith s p = (take (length p) s = p)"

text \<open>\<^verbatim>\<open>String.prototype.includes\<close>.\<close>

fun includesStr :: "string \<Rightarrow> string \<Rightarrow> bool" where
  "includesStr [] p = (p = [])"
| "includesStr (c # cs) p = (startsWith (c # cs) p \<or> includesStr cs p)"

section \<open>parseInt\<close>

text \<open>
  The Number nearest to a natural number (round to nearest, ties to even, 53 bits of
  significand): the identity below \<open>2 ^ 53\<close>, and infinity (\<open>None\<close>) from
  \<open>2 ^ 1024 - 2 ^ 970\<close> on.
\<close>

fun bitLength :: "nat \<Rightarrow> nat" where
  "bitLength n = (if n = 0 then 0 else Suc (bitLength (n div 2)))"

definition roundToDouble :: "nat \<Rightarrow> nat option" where
  "roundToDouble n =
     (if n < 2 ^ 53 then Some n
      else let e = bitLength n - 53;
               q = n div 2 ^ e;
               r = n mod 2 ^ e;
               half = 2 ^ (e - 1);
               q' = (if half < r \<or> (r = half \<and> odd q) then q + 1 else q);
               v = q' * 2 ^ e
           in if 2 ^ 1024 \<le> v then None else Some v)"

text \<open>
  \<^verbatim>\<open>parseInt(string, 10)\<close> on the string the argument converts to: leading white space
  is dropped, one sign is read, then the longest run of decimal digits; no digit gives
  NaN. Whatever follows the digits is ignored.
\<close>

definition parseInt10 :: "string \<Rightarrow> jsnum" where
  "parseInt10 inputString =
     (let s = dropWhile isWhiteSpace inputString;
          neg = startsWith s ''-'';
          s1 = (if startsWith s ''-'' \<or> startsWith s ''+'' then tl s else s);
          z = takeWhile isDigit s1
      in if z = [] then JNaN
         else (case roundToDouble (decimalValue z) of
                 None \<Rightarrow> (if neg then JNegInf else JPosInf)
               | Some v \<Rightarrow> JInt (if neg then - int v else int v)))"

section \<open>The two patterns of parseAdDate\<close>

text \<open>
  \<^verbatim>\<open>/Started running on (\d{1,2} \w{3} \d{4})/\<close>. \<open>dateTokenAt k r\<close> is the capture group
  at the head of \<open>r\<close> when \<^verbatim>\<open>\d{1,2}\<close> takes \<open>k\<close> digits. The quantifier is greedy: two
  digits are tried first, then one. \<open>matchDate\<close> is \<^verbatim>\<open>String.prototype.match\<close> with
  this pattern: the leftmost position where it matches, and the capture there.
\<close>

definition dateTokenAt :: "nat \<Rightarrow> string \<Rightarrow> string option" where
  "dateTokenAt k r =
     (let dd = take k r;
          r1 = drop k r;
          w = take 3 (drop 1 r1);
          r2 = drop 4 r1;
          y = take 4 (drop 1 r2)
      in if length dd = k \<and> list_all isDigit dd \<and> take 1 r1 = '' ''
            \<and> length w = 3 \<and> list_all isWordChar w \<and> take 1 r2 = '' ''
            \<and> length y = 4 \<and> list_all isDigit y
         then Some (dd @ '' '' @ w @ '' '' @ y) else None)"

definition matchDateHere :: "string \<Rightarrow> string option" where
  "matchDateHere s =
     (if startsWith s ''Started running on ''
      then (let r = drop (length ''Started running on '') s
            in case dateTokenAt 2 r of Some c \<Rightarrow> Some c | None \<Rightarrow> dateTokenAt 1 r)
      else None)"

fun matchDate :: "string \<Rightarrow> string option" where
  "matchDate [] = matchDateHere []"
| "matchDate (c # cs) =
     (case matchDateHere (c # cs) of Some m \<Rightarrow> Some m | None \<Rightarrow> matchDate cs)"

text \<open>
  \<^verbatim>\<open>/Total active time (\d+) hrs/\<close>. The greedy \<^verbatim>\<open>\d+\<close> takes every digit; giving one
  back cannot help, since a digit would then stand where the pattern wants the space.
\<close>

definition matchTimeHere :: "string \<Rightarrow> string option" where
  "matchTimeHere s =
     (if startsWith s ''Total active time ''
      then (let r = drop (length ''Total active time '') s;
                ds = takeWhile isDigit r
            in if ds \<noteq> [] \<and> startsWith (dropWhile isDigit r) '' hrs'' then Some ds else None)
      else None)"

fun matchTime :: "string \<Rightarrow> string option" where
  "matchTime [] = matchTimeHere []"
| "matchTime (c # cs) =
     (case matchTimeHere (c # cs) of Some m \<Rightarrow> Some m | None \<Rightarrow> matchTime cs)"

section \<open>The Date object\<close>

text \<open>
  \<^verbatim>\<open>new Date(string)\<close> is given the capture group of the date pattern, which is not in
  the ISO format, so the engine falls back to its own parser; the programs run on
  Node.js, whose engine is V8. What follows is V8's legacy date parser on the strings
  the capture group can hold: ASCII digits, word characters and spaces. A string with
  any other character is outside this model and is answered as an invalid date; the
  programs never pass one.

  The scanner cuts the string into numbers, words (runs of characters from \<^verbatim>\<open>A\<close> up
  that are not white space, which takes in the underscore) and white space.
\<close>

datatype dtoken = TNumber string | TWord string | TWhite | TOther

fun scanDate :: "string \<Rightarrow> dtoken list" where
  "scanDate [] = []"
| "scanDate (c # cs) =
     (if isDigit c then
        (case scanDate cs of TNumber ds # ts \<Rightarrow> TNumber (c # ds) # ts
                           | ts \<Rightarrow> TNumber [c] # ts)
      else if isAsciiAlpha c \<or> c = CHR ''_'' then
        (case scanDate cs of TWord w # ts \<Rightarrow> TWord (c # w) # ts
                           | ts \<Rightarrow> TWord [c] # ts)
      else if c = CHR '' '' then
        (case scanDate cs of TWhite # ts \<Rightarrow> TWhite # ts
                           | ts \<Rightarrow> TWhite # ts)
      else TOther # scanDate cs)"

text \<open>
  The keyword table: a word is looked up by its first three characters in lower case;
  a word longer than a keyword only counts for a month name.
\<close>

datatype keyword = MonthName nat | AmPm | TimeZoneName int | TimeSeparator | Invalid

definition keywordTable :: "(string \<times> keyword) list" where
  "keywordTable =
     [(''jan'', MonthName 1), (''feb'', MonthName 2), (''mar'', MonthName 3),
      (''apr'', MonthName 4), (''may'', MonthName 5), (''jun'', MonthName 6),
      (''jul'', MonthName 7), (''aug'', MonthName 8), (''sep'', MonthName 9),
      (''oct'', MonthName 10), (''nov'', MonthName 11), (''dec'', MonthName 12),
      (''am'', AmPm), (''pm'', AmPm),
      (''ut'', TimeZoneName 0), (''utc'', TimeZoneName 0), (''z'', TimeZoneName 0),
      (''gmt'', TimeZoneName 0), (''cdt'', TimeZoneName (- 5)), (''cst'', TimeZoneName (- 6)),
      (''edt'', TimeZoneName (- 4)), (''est'', TimeZoneName (- 5)), (''mdt'', TimeZoneName (- 6)),
      (''mst'', TimeZoneName (- 7)), (''pdt'', TimeZoneName (- 7)), (''pst'', TimeZoneName (- 8)),
      (''t'', TimeSeparator)]"

fun isMonthName :: "keyword \<Rightarrow> bool" where
  "isMonthName (MonthName m) = True"
| "isMonthName k = False"

fun lookupKeyword :: "(string \<times> keyword) list \<Rightarrow> string \<Rightarrow> keyword" where
  "lookupKeyword [] w = Invalid"
| "lookupKeyword ((name, k) # rest) w =
     (if map toLower (take 3 w) = name \<and> (length w \<le> 3 \<or> isMonthName k) then k
      else lookupKeyword rest w)"

text \<open>
  The parser's state: the numbers read for the day composer (at most three), the
  named month, the time zone a keyword named (in hours), and whether a number has
  been read. With only numbers, words and spaces in the string, no time of day is
  ever read, so every number goes to the day composer.
\<close>

record dateparser =
  comp :: "nat list"
  named_month :: "nat option"
  tz_hours :: "int option"
  has_read_number :: bool

fun isNumberToken :: "dtoken list \<Rightarrow> bool" where
  "isNumberToken (TNumber ds # ts) = True"
| "isNumberToken ts = False"

fun legacyParse :: "dtoken list \<Rightarrow> dateparser \<Rightarrow> dateparser option" where
  "legacyParse [] st = Some st"
| "legacyParse (TNumber ds # ts) st =
     (if length (comp st) < 3
      then legacyParse ts (st\<lparr>comp := comp st @ [decimalValue ds], has_read_number := True\<rparr>)
      else None)"
| "legacyParse (TWord w # ts) st =
     (case lookupKeyword keywordTable w of
        MonthName m \<Rightarrow> legacyParse ts (st\<lparr>named_month := Some m\<rparr>)
      | TimeZoneName h \<Rightarrow>
          (if has_read_number st then legacyParse ts (st\<lparr>tz_hours := Some h\<rparr>)
           else if isNumberToken ts then None else legacyParse ts st)
      | _ \<Rightarrow>
          (if has_read_number st then None
           else if isNumberToken ts then None else legacyParse ts st))"
| "legacyParse (TWhite # ts) st = legacyParse ts st"
| "legacyParse (TOther # ts) st = None"

definition isDay :: "nat \<Rightarrow> bool" where
  "isDay x = (1 \<le> x \<and> x \<le> 31)"

definition isMonth :: "nat \<Rightarrow> bool" where
  "isMonth x = (1 \<le> x \<and> x \<le> 12)"

text \<open>
  The day composer's result: year, month and day. The composer first fills its three
  slots, a missing number being 1, and only then asks how many it holds; so with a named
  month it always takes the first two numbers for day and year (a day-sized first number
  is the day). A year below 50 is in the 2000s, one below 100 in the 1900s.
\<close>

definition dayWrite :: "dateparser \<Rightarrow> (nat \<times> nat \<times> nat) option" where
  "dayWrite st =
     (if comp st = [] then None
      else let c = comp st @ replicate (3 - length (comp st)) 1;
               c0 = c ! 0; c1 = c ! 1; c2 = c ! 2;
               ymd = (case named_month st of
                        None \<Rightarrow> (if \<not> isDay c0 then (c0, c1, c2) else (c2, c0, c1))
                      | Some m \<Rightarrow> (if \<not> isDay c0 then (c0, m, c1) else (c1, m, c0)));
               y = fst ymd; m = fst (snd ymd); d = snd (snd ymd);
               year = (if y \<le> 49 then y + 2000 else if y \<le> 99 then y + 1900 else y)
           in if isMonth m \<and> isDay d then Some (year, m, d) else None)"

text \<open>Days from 1 January 1970 to a date of the proleptic Gregorian calendar, and back.\<close>

definition daysFromCivil :: "int \<Rightarrow> int \<Rightarrow> int \<Rightarrow> int" where
  "daysFromCivil y m d =
     (let y' = (if m \<le> 2 then y - 1 else y);
          era = y' div 400;
          yoe = y' - era * 400;
          doy = (153 * (if 2 < m then m - 3 else m + 9) + 2) div 5 + d - 1;
          doe = yoe * 365 + yoe div 4 - yoe div 100 + doy
      in era * 146097 + doe - 719468)"

definition civilFromDays :: "int \<Rightarrow> int \<times> int \<times> int" where
  "civilFromDays z =
     (let z' = z + 719468;
          era = z' div 146097;
          doe = z' - era * 146097;
          yoe = (doe - doe div 1460 + doe div 36524 - doe div 146096) div 365;
          doy = doe - (365 * yoe + yoe div 4 - yoe div 100);
          mp = (5 * doy + 2) div 153;
          d = doy - (153 * mp + 2) div 5 + 1;
          m = (if mp < 10 then mp + 3 else mp - 9);
          y = yoe + era * 400
      in ((if m \<le> 2 then y + 1 else y), m, d))"

definition msPerDay :: int where
  "msPerDay = 86400000"

text \<open>
  \<^verbatim>\<open>new Date(string).getTime()\<close>: the time value in milliseconds since the epoch, UTC,
  or \<open>None\<close> for NaN (an invalid date). A string that names no time zone is read as
  local time: \<open>tzOffset\<close> is the offset of the process's local time from UTC in minutes,
  positive east of Greenwich, in force at that local time.
\<close>

definition dateParse :: "int \<Rightarrow> string \<Rightarrow> int option" where
  "dateParse tzOffset str =
     (case legacyParse (scanDate str)
             \<lparr>comp = [], named_month = None, tz_hours = None, has_read_number = False\<rparr> of
        None \<Rightarrow> None
      | Some st \<Rightarrow>
          (case dayWrite st of
             None \<Rightarrow> None
           | Some (y, m, d) \<Rightarrow>
               (let localMs = (daysFromCivil (int y) (int m) 1 + int d - 1) * msPerDay
                in case tz_hours st of
                     None \<Rightarrow> Some (localMs - tzOffset * 60000)
                   | Some h \<Rightarrow> Some (localMs - h * 3600000))))"

subsection \<open>toISOString\<close>

definition digitChar :: "nat \<Rightarrow> char" where
  "digitChar d = ''0123456789'' ! (d mod 10)"

text \<open>The last \<open>k\<close> decimal digits of a number, for the field widths of the ISO format.\<close>

definition twoDigits :: "nat \<Rightarrow> string" where
  "twoDigits n = [digitChar (n div 10), digitChar n]"

definition threeDigits :: "nat \<Rightarrow> string" where
  "threeDigits n = digitChar (n div 100) # twoDigits n"

definition fourDigits :: "nat \<Rightarrow> string" where
  "fourDigits n = digitChar (n div 1000) # threeDigits n"

definition sixDigits :: "nat \<Rightarrow> string" where
  "sixDigits n = digitChar (n div 100000) # digitChar (n div 10000) # fourDigits n"

text \<open>
  \<^verbatim>\<open>Date.prototype.toISOString\<close>: a RangeError on an invalid date, else
  \<^verbatim>\<open>YYYY-MM-DDTHH:mm:ss.sssZ\<close> in UTC, the year with a sign and six digits outside
  0..9999.
\<close>

definition toISOString :: "int option \<Rightarrow> js_error + string" where
  "toISOString tv =
     (case tv of
        None \<Rightarrow> Inl RangeError
      | Some t \<Rightarrow>
          (let days = t div msPerDay;
               ms = nat (t mod msPerDay);
               ymd = civilFromDays days;
               y = fst ymd; m = fst (snd ymd); d = snd (snd ymd);
               year = (if 0 \<le> y \<and> y \<le> 9999 then fourDigits (nat y)
                       else (if y < 0 then ''-'' else ''+'') @ sixDigits (nat \<bar>y\<bar>))
           in Inr (year @ ''-'' @ twoDigits (nat m) @ ''-'' @ twoDigits (nat d) @ ''T''
                   @ twoDigits (ms div 3600000) @ '':'' @ twoDigits (ms div 60000 mod 60)
                   @ '':'' @ twoDigits (ms div 1000 mod 60) @ ''.'' @ threeDigits (ms mod 1000)
                   @ ''Z'')))"

text \<open>\<^verbatim>\<open>s.split('T')[0]\<close>: the part of \<open>s\<close> before its first \<^verbatim>\<open>T\<close>.\<close>

definition splitT0 :: "string \<Rightarrow> string" where
  "splitT0 s = takeWhile (\<lambda>c. c \<noteq> CHR ''T'') s"

section \<open>parseAdDate\<close>

text \<open>
  The result \<^verbatim>\<open>{ ad_date, active_time_hr }\<close> is a pair; \<open>None\<close> is \<^verbatim>\<open>null\<close>. A truthy
  argument that is no string has no \<^verbatim>\<open>match\<close> method: the call raises a TypeError.
  The \<^verbatim>\<open>try\<close> block around the date turns an exception of \<^verbatim>\<open>toISOString\<close> into a null
  date.
\<close>

definition parseAdDate :: "int \<Rightarrow> jsval \<Rightarrow> js_error + (string option \<times> jsnum option)" where
  "parseAdDate tzOffset adDateText =
     (if \<not> truthy adDateText then Inr (None, None)
      else case adDateText of
        JStr s \<Rightarrow>
          (let dateMatch = matchDate s;
               timeMatch = matchTime s;
               ad_date =
                 (case dateMatch of
                    None \<Rightarrow> None
                  | Some tok \<Rightarrow>
                      (let d = dateParse tzOffset tok
                       in if d \<noteq> None
                          then (case toISOString d of
                                  Inr isoText \<Rightarrow> Some (splitT0 isoText)
                                | Inl e \<Rightarrow> None)
                          else None));
               active_time_hr =
                 (case timeMatch of
                    None \<Rightarrow> None
                  | Some ds \<Rightarrow> Some (parseInt10 ds))
           in Inr (ad_date, active_time_hr))
      | _ \<Rightarrow> Inl TypeError)"

section \<open>transformRow\<close>

text \<open>
  A row of the source table \<^verbatim>\<open>pageseeker_response\<close>, with the columns transformRow
  reads, and a row of the destination table \<^verbatim>\<open>pageseeker_response_opensearch\<close>. The
  primary key is an integer; \<open>None\<close> in a destination field is \<^verbatim>\<open>null\<close>.
\<close>

record source_row =
  src_id :: int
  src_keyword :: jsval
  src_ad_id :: jsval
  src_ad_url :: jsval
  src_page_url :: jsval
  src_ad_date :: jsval
  src_ad_name :: jsval
  src_ad_profile_url :: jsval
  src_ad_caption :: jsval
  src_ad_links :: jsval
  src_image_urls :: jsval
  src_video_urls :: jsval
  src_collected_at :: jsval
  src_ad_risk_level :: jsval
  src_ad_risk_reason :: jsval
  src_request_id :: jsval

record dest_row =
  dst_id :: int
  dst_keyword :: jsval
  dst_ad_id :: "jsnum option"
  dst_ad_url :: jsval
  dst_page_url :: jsval
  dst_ad_date :: "string option"
  dst_active_time_hr :: "jsnum option"
  dst_ad_name :: jsval
  dst_ad_profile_url :: jsval
  dst_ad_caption :: jsval
  dst_ad_links :: jsval
  dst_image_urls :: jsval
  dst_video_urls :: jsval
  dst_collected_at :: jsval
  dst_ad_risk_level :: "jsnum option"
  dst_ad_risk_reason :: jsval
  dst_request_id :: "jsnum option"
  dst_opensearch_sync :: bool

text \<open>\<^verbatim>\<open>n || null\<close> on the result of parseInt.\<close>

definition numOrNull :: "jsnum \<Rightarrow> jsnum option" where
  "numOrNull n = (if truthyNum n then Some n else None)"

text \<open>\<^verbatim>\<open>row.f ? parseInt(row.f, 10) || null : null\<close>.\<close>

definition intField :: "jsval \<Rightarrow> jsnum option" where
  "intField v = (if truthy v then numOrNull (parseInt10 (ToString v)) else None)"

definition transformRow :: "int \<Rightarrow> source_row \<Rightarrow> js_error + dest_row" where
  "transformRow tzOffset row =
     (case parseAdDate tzOffset (src_ad_date row) of
        Inl e \<Rightarrow> Inl e
      | Inr parsed \<Rightarrow>
          Inr \<lparr>dst_id = src_id row,
               dst_keyword = jsOr (src_keyword row) JNull,
               dst_ad_id = intField (src_ad_id row),
               dst_ad_url = jsOr (src_ad_url row) JNull,
               dst_page_url = jsOr (src_page_url row) JNull,
               dst_ad_date = fst parsed,
               dst_active_time_hr = snd parsed,
               dst_ad_name = jsOr (src_ad_name row) JNull,
               dst_ad_profile_url = jsOr (src_ad_profile_url row) JNull,
               dst_ad_caption = jsOr (src_ad_caption row) JNull,
               dst_ad_links = jsOr (src_ad_links row) JNull,
               dst_image_urls = jsOr (src_image_urls row) JNull,
               dst_video_urls = jsOr (src_video_urls row) JNull,
               dst_collected_at = jsOr (src_collected_at row) JNull,
               dst_ad_risk_level = intField (src_ad_risk_level row),
               dst_ad_risk_reason = jsOr (src_ad_risk_reason row) JNull,
               dst_request_id = intField (src_request_id row),
               dst_opensearch_sync = False\<rparr>)"

text \<open>\<^verbatim>\<open>rows.map(transformRow)\<close>: the first exception ends the map.\<close>

fun mapE :: "('a \<Rightarrow> 'e + 'b) \<Rightarrow> 'a list \<Rightarrow> 'e + 'b list" where
  "mapE f [] = Inr []"
| "mapE f (x # xs) =
     (case f x of
        Inl e \<Rightarrow> Inl e
      | Inr y \<Rightarrow> (case mapE f xs of Inl e \<Rightarrow> Inl e | Inr ys \<Rightarrow> Inr (y # ys)))"

section \<open>The datastore\<close>

definition BATCH_SIZE :: nat where
  "BATCH_SIZE = 1000"

definition MAX_RETRIES :: nat where
  "MAX_RETRIES = 3"

definition RETRY_DELAY :: nat where
  "RETRY_DELAY = 1000"

text \<open>
  The source table is a list of rows in any order; it does not change during a run.
  The batch query of \<^verbatim>\<open>migrate_records.js\<close> is
  \<^verbatim>\<open>.gt('id', lastId).order('id', { ascending: true }).limit(BATCH_SIZE)\<close>; the one of
  \<^verbatim>\<open>part_000\<close> adds the \<^verbatim>\<open>gt\<close> filter only when \<^verbatim>\<open>lastId > 0\<close>.
\<close>

definition fetchPage_overwrite :: "source_row list \<Rightarrow> int \<Rightarrow> source_row list" where
  "fetchPage_overwrite src lastId =
     take BATCH_SIZE (sort_key src_id (filter (\<lambda>r. lastId < src_id r) src))"

definition fetchPage_prefilter :: "source_row list \<Rightarrow> int \<Rightarrow> source_row list" where
  "fetchPage_prefilter src lastId =
     take BATCH_SIZE (sort_key src_id
       (if 0 < lastId then filter (\<lambda>r. lastId < src_id r) src else src))"

text \<open>
  The destination table maps a primary key to its row. \<^verbatim>\<open>upsert\<close> with
  \<^verbatim>\<open>onConflict: 'id'\<close> inserts a record or replaces the row of the same key.
\<close>

type_synonym dest_table = "int \<Rightarrow> dest_row option"

definition upsert :: "dest_table \<Rightarrow> dest_row list \<Rightarrow> dest_table" where
  "upsert d recs = foldl (\<lambda>m r. m(dst_id r \<mapsto> r)) d recs"

text \<open>
  Every request to the datastore is answered by the environment: it succeeds, it
  resolves with an error payload (\<^verbatim>\<open>{ data: null, error }\<close>, the message given), or
  the awaited promise rejects (an exception with the message given). A write that
  fails does not change the table. The environment answers the requests of a run in
  order, the \<open>n\<close>-th request by \<open>reply env n\<close>; \<open>localOffset\<close> is the time zone offset of
  the process (see \<open>dateParse\<close>).

  The world of a run is the destination table, the number of requests made and the
  trace of what the run did: requests and sleeps, oldest first.
\<close>

datatype reply = Ok | Err string | Throw string

datatype event = Count | Fetch int | Exists "int list" | Upsert "dest_row list" | Sleep nat

record env =
  localOffset :: int
  reply :: "nat \<Rightarrow> reply"

record world =
  destTable :: dest_table
  tick :: nat
  trace :: "event list"

definition answer :: "env \<Rightarrow> world \<Rightarrow> reply" where
  "answer env w = reply env (tick w)"

definition called :: "event \<Rightarrow> world \<Rightarrow> world" where
  "called e w = w\<lparr>tick := Suc (tick w), trace := trace w @ [e]\<rparr>"

definition sleep :: "nat \<Rightarrow> world \<Rightarrow> world" where
  "sleep ms w = w\<lparr>trace := trace w @ [Sleep ms]\<rparr>"

section \<open>upsertWithRetry\<close>

text \<open>
  The \<^verbatim>\<open>for\<close> loop of upsertWithRetry from attempt \<open>attempt\<close> on. An error payload on
  the last attempt is thrown and caught by the loop's own \<^verbatim>\<open>catch\<close>, which returns
  it; before that, both an error payload and an exception sleep RETRY_DELAY and go
  round again. A loop that runs out without an attempt returns \<^verbatim>\<open>undefined\<close>
  (\<open>None\<close>).
\<close>

record retry_result =
  success :: bool
  error :: "string option"

function upsertWithRetry_from ::
  "env \<Rightarrow> dest_row list \<Rightarrow> nat \<Rightarrow> nat \<Rightarrow> world \<Rightarrow> retry_result option \<times> world" where
  "upsertWithRetry_from env data maxRetries attempt w =
     (if attempt \<le> maxRetries then
        (case answer env w of
           Ok \<Rightarrow> (Some \<lparr>success = True, error = None\<rparr>,
                  (called (Upsert data) w)\<lparr>destTable := upsert (destTable w) data\<rparr>)
         | Err m \<Rightarrow>
             (if attempt < maxRetries
              then upsertWithRetry_from env data maxRetries (Suc attempt)
                     (sleep RETRY_DELAY (called (Upsert data) w))
              else (Some \<lparr>success = False, error = Some m\<rparr>, called (Upsert data) w))
         | Throw m \<Rightarrow>
             (if attempt = maxRetries
              then (Some \<lparr>success = False, error = Some m\<rparr>, called (Upsert data) w)
              else upsertWithRetry_from env data maxRetries (Suc attempt)
                     (sleep RETRY_DELAY (called (Upsert data) w))))
      else (None, w))"
  by pat_completeness auto
termination
  by (relation "measure (\<lambda>(env, data, maxRetries, attempt, w). Suc maxRetries - attempt)") auto

definition upsertWithRetry ::
  "env \<Rightarrow> dest_row list \<Rightarrow> nat \<Rightarrow> world \<Rightarrow> retry_result option \<times> world" where
  "upsertWithRetry env data maxRetries w = upsertWithRetry_from env data maxRetries 1 w"

section \<open>main\<close>

text \<open>
  The variables of \<^verbatim>\<open>main\<close>, and how a run ends: the exit code of the process with the
  variables and the world at that moment. An exception that reaches \<^verbatim>\<open>main().catch\<close>
  exits with code 1.
\<close>

record vars =
  lastId :: int
  totalProcessed :: nat
  totalUpserted :: nat
  totalErrors :: nat

record run_result =
  exitCode :: nat
  finalVars :: vars
  finalWorld :: world

definition exitWith :: "nat \<Rightarrow> vars \<Rightarrow> world \<Rightarrow> run_result" where
  "exitWith code v w = \<lparr>exitCode = code, finalVars = v, finalWorld = w\<rparr>"

text \<open>
  After the loop: the summary, the count of the destination table (its error payload
  is not looked at) and the exit code.
\<close>

definition finish :: "env \<Rightarrow> vars \<Rightarrow> world \<Rightarrow> run_result" where
  "finish env v w =
     (case answer env w of
        Throw m \<Rightarrow> exitWith 1 v (called Count w)
      | _ \<Rightarrow> exitWith (if 0 < totalErrors v then 1 else 0) v (called Count w))"

text \<open>
  One round of \<^verbatim>\<open>while (true)\<close> either ends the run (\<^verbatim>\<open>break\<close> and what follows the
  loop, \<^verbatim>\<open>process.exit\<close>, or an exception) or goes round again (\<^verbatim>\<open>continue\<close>, or the end
  of the body). The loop may never end, so it runs on fuel: one unit a round, and
  \<open>None\<close> when the fuel is used up before the run ends.
\<close>

datatype step = Done run_result | Next vars world

fun runLoop :: "(vars \<Rightarrow> world \<Rightarrow> step) \<Rightarrow> nat \<Rightarrow> vars \<Rightarrow> world \<Rightarrow> run_result option" where
  "runLoop body 0 v w = None"
| "runLoop body (Suc n) v w =
     (case body v w of
        Done r \<Rightarrow> Some r
      | Next v' w' \<Rightarrow> runLoop body n v' w')"

subsection \<open>migrate_records.js: upsert-overwrite, skip-and-advance\<close>

definition body_overwrite :: "env \<Rightarrow> source_row list \<Rightarrow> vars \<Rightarrow> world \<Rightarrow> step" where
  "body_overwrite env src v w =
     (let w1 = called (Fetch (lastId v)) w in
      case answer env w of
        Throw m \<Rightarrow> Done (exitWith 1 v w1)
      | Err m \<Rightarrow>
          (let v1 = v\<lparr>totalErrors := totalErrors v + 1, lastId := lastId v + int BATCH_SIZE\<rparr>
           in if 10 < totalErrors v1 then Done (finish env v1 w1) else Next v1 w1)
      | Ok \<Rightarrow>
          (let rows = fetchPage_overwrite src (lastId v) in
           if rows = [] then Done (finish env v w1)
           else case mapE (transformRow (localOffset env)) rows of
             Inl e \<Rightarrow> Done (exitWith 1 v w1)
           | Inr transformed \<Rightarrow>
               (let w2 = called (Upsert transformed) w1 in
                case answer env w1 of
                  Throw m \<Rightarrow> Done (exitWith 1 v w2)
                | Err m \<Rightarrow>
                    Next (v\<lparr>totalErrors := totalErrors v + 1,
                            totalProcessed := totalProcessed v + length rows,
                            lastId := src_id (last rows)\<rparr>) w2
                | Ok \<Rightarrow>
                    Next (v\<lparr>totalUpserted := totalUpserted v + length transformed,
                            totalProcessed := totalProcessed v + length rows,
                            lastId := src_id (last rows)\<rparr>)
                         (w2\<lparr>destTable := upsert (destTable w2) transformed\<rparr>))))"

text \<open>
  Before the loop both programs count the source table, and exit with code 1 on an
  error, then count the destination table.
\<close>

definition initialVars :: vars where
  "initialVars = \<lparr>lastId = 0, totalProcessed = 0, totalUpserted = 0, totalErrors = 0\<rparr>"

definition initialWorld :: "dest_table \<Rightarrow> world" where
  "initialWorld d0 = \<lparr>destTable = d0, tick = 0, trace = []\<rparr>"

definition mainWith ::
  "(vars \<Rightarrow> world \<Rightarrow> step) \<Rightarrow> nat \<Rightarrow> env \<Rightarrow> dest_table \<Rightarrow> run_result option" where
  "mainWith body fuel env d0 =
     (let w0 = initialWorld d0; w1 = called Count w0; w2 = called Count w1 in
      case answer env w0 of
        Throw m \<Rightarrow> Some (exitWith 1 initialVars w1)
      | Err m \<Rightarrow> Some (exitWith 1 initialVars w1)
      | Ok \<Rightarrow>
          (case answer env w1 of
             Throw m \<Rightarrow> Some (exitWith 1 initialVars w2)
           | _ \<Rightarrow> runLoop body fuel initialVars w2))"

definition main_overwrite ::
  "nat \<Rightarrow> env \<Rightarrow> source_row list \<Rightarrow> dest_table \<Rightarrow> run_result option" where
  "main_overwrite fuel env src d0 = mainWith (body_overwrite env src) fuel env d0"

subsection \<open>part_000: pre-filter, retry-in-place\<close>

definition isConnectionError :: "string \<Rightarrow> bool" where
  "isConnectionError msg =
     (msg \<noteq> [] \<and> (includesStr msg ''terminated'' \<or> includesStr msg ''timeout''
        \<or> includesStr msg ''connection''))"

text \<open>
  The existence query \<^verbatim>\<open>.select('id').in('id', ids)\<close> answers with the ids of the page
  that the destination holds. Only \<^verbatim>\<open>result.data\<close> is read: on an error payload it is
  \<^verbatim>\<open>null\<close>, and \<^verbatim>\<open>existingRecords?.map(...) || []\<close> is the empty list.
\<close>

definition existingOf :: "reply \<Rightarrow> dest_table \<Rightarrow> int list \<Rightarrow> int list" where
  "existingOf r d ids = (case r of Ok \<Rightarrow> filter (\<lambda>i. d i \<noteq> None) ids | _ \<Rightarrow> [])"

definition body_prefilter :: "env \<Rightarrow> source_row list \<Rightarrow> vars \<Rightarrow> world \<Rightarrow> step" where
  "body_prefilter env src v w =
     (let w1 = called (Fetch (lastId v)) w in
      case answer env w of
        Throw m \<Rightarrow> Done (exitWith 1 v w1)
      | Err m \<Rightarrow>
          (if isConnectionError m then Next v (sleep 2000 w1) else Done (exitWith 1 v w1))
      | Ok \<Rightarrow>
          (let rows = fetchPage_prefilter src (lastId v) in
           if rows = [] then Done (finish env v w1)
           else case mapE (transformRow (localOffset env)) rows of
             Inl e \<Rightarrow> Done (exitWith 1 v w1)
           | Inr transformed \<Rightarrow>
               (let ids = map src_id rows;
                    w2 = called (Exists ids) w1
                in case answer env w1 of
                  Throw m \<Rightarrow>
                    (if isConnectionError m then Next v (sleep 2000 w2)
                     else Done (exitWith 1 v w2))
                | r \<Rightarrow>
                    (let existingIds = existingOf r (destTable w2) ids;
                         newRecords = filter (\<lambda>record. dst_id record \<notin> set existingIds) transformed;
                         v' = v\<lparr>totalProcessed := totalProcessed v + length rows,
                                lastId := src_id (last rows)\<rparr>
                     in if newRecords = [] then Next v' w2
                        else (case upsertWithRetry env newRecords MAX_RETRIES w2 of
                                (None, w3) \<Rightarrow> Done (exitWith 1 v w3)
                              | (Some retryResult, w3) \<Rightarrow>
                                  (if error retryResult \<noteq> None
                                   then Next (v'\<lparr>totalErrors := totalErrors v + 1\<rparr>) w3
                                   else Next (v'\<lparr>totalUpserted :=
                                                 totalUpserted v + length newRecords\<rparr>) w3))))))"

definition main_prefilter ::
  "nat \<Rightarrow> env \<Rightarrow> source_row list \<Rightarrow> dest_table \<Rightarrow> run_result option" where
  "main_prefilter fuel env src d0 = mainWith (body_prefilter env src) fuel env d0"

section \<open>Example rows and environments\<close>

text \<open>A source row with the given key and NULL in every other column.\<close>

definition blankRow :: "int \<Rightarrow> source_row" where
  "blankRow i = \<lparr>src_id = i, src_keyword = JNull, src_ad_id = JNull, src_ad_url = JNull,
     src_page_url = JNull, src_ad_date = JNull, src_ad_name = JNull, src_ad_profile_url = JNull,
     src_ad_caption = JNull, src_ad_links = JNull, src_image_urls = JNull, src_video_urls = JNull,
     src_collected_at = JNull, src_ad_risk_level = JNull, src_ad_risk_reason = JNull,
     src_request_id = JNull\<rparr>"

text \<open>An environment in which every request succeeds, in the given time zone.\<close>

definition okEnv :: "int \<Rightarrow> env" where
  "okEnv tz = \<lparr>localOffset = tz, reply = (\<lambda>n. Ok)\<rparr>"

text \<open>What transformRow makes of a blank row.\<close>

definition blankDest :: "int \<Rightarrow> dest_row" where
  "blankDest i = \<lparr>dst_id = i, dst_keyword = JNull, dst_ad_id = None, dst_ad_url = JNull,
     dst_page_url = JNull, dst_ad_date = None, dst_active_time_hr = None, dst_ad_name = JNull,
     dst_ad_profile_url = JNull, dst_ad_caption = JNull, dst_ad_links = JNull,
     dst_image_urls = JNull, dst_video_urls = JNull, dst_collected_at = JNull,
     dst_ad_risk_level = None, dst_ad_risk_reason = JNull, dst_request_id = None,
     dst_opensearch_sync = False\<rparr>"

text \<open>Row 2 of the spec's end-to-end scenario.\<close>

definition scenarioRow :: source_row where
  "scenarioRow =
     (blankRow 2)\<lparr>src_ad_date := JStr ''Started running on 1 Feb 2024. Total active time 10 hrs.''\<rparr>"

text \<open>A row whose date token is no date and whose \<^verbatim>\<open>ad_id\<close> is no number.\<close>

definition malformedRow :: source_row where
  "malformedRow =
     (blankRow 3)\<lparr>src_ad_date := JStr ''Started running on 35 Foo 2023'',
        src_ad_id := JStr ''abc'', src_ad_risk_level := JStr '''', src_request_id := JStr ''12''\<rparr>"

text \<open>An environment whose counts succeed and whose every later request fails.\<close>

definition fetchFailsEnv :: env where
  "fetchFailsEnv = \<lparr>localOffset = 0, reply = (\<lambda>n. if n < 2 then Ok else Err ''connection reset'')\<rparr>"

text \<open>
  An environment whose counts and first fetch succeed and whose every later request
  fails: the first write, then every fetch.
\<close>

definition lateFailuresEnv :: env where
  "lateFailuresEnv = \<lparr>localOffset = 0, reply = (\<lambda>n. if n < 3 then Ok else Err ''connection reset'')\<rparr>"

text \<open>The message of a failed request.\<close>

definition messageOf :: "reply \<Rightarrow> string" where
  "messageOf r = (case r of Ok \<Rightarrow> [] | Err m \<Rightarrow> m | Throw m \<Rightarrow> m)"

text \<open>
  Environments with one kind of failure: every attempt of the first write fails (requests
  4, 5 and 6 of a run of \<^verbatim>\<open>part_000\<close>), or the first existence query resolves with an error
  payload (request 3). A destination row that has been indexed already.
\<close>

definition upsertFailsEnv :: env where
  "upsertFailsEnv =
     \<lparr>localOffset = 0, reply = (\<lambda>n. if 4 \<le> n \<and> n \<le> 6 then Err ''write conflict'' else Ok)\<rparr>"

definition existsFailsEnv :: env where
  "existsFailsEnv = \<lparr>localOffset = 0, reply = (\<lambda>n. if n = 3 then Err ''timeout'' else Ok)\<rparr>"

definition syncedRow :: "int \<Rightarrow> dest_row" where
  "syncedRow i = (blankDest i)\<lparr>dst_keyword := JStr ''indexed'', dst_opensearch_sync := True\<rparr>"

text \<open>The writes among the events of a trace.\<close>

fun isUpsert :: "event \<Rightarrow> bool" where
  "isUpsert (Upsert ds) = True"
| "isUpsert e = False"

section \<open>Evaluating the parsers\<close>

lemmas char_defs = isDigit_def isAsciiAlpha_def isWordChar_def isWhiteSpace_def digitVal_def

lemmas match_defs = matchDateHere_def matchTimeHere_def startsWith_def dateTokenAt_def

lemma matchDate_5_Jan: "matchDate ''Started running on 5 Jan 2023'' = Some ''5 Jan 2023''"
  by (simp add: match_defs char_defs)

lemma matchTime_5_Jan: "matchTime ''Started running on 5 Jan 2023'' = None"
  by (simp add: match_defs char_defs)

lemma dateParse_5_Jan: "dateParse tz ''5 Jan 2023'' = Some (1672876800000 - tz * 60000)"
  unfolding dateParse_def dayWrite_def daysFromCivil_def Let_def
  by (simp add: keywordTable_def toLower_def decimalValue_def char_defs isDay_def isMonth_def
      msPerDay_def)

lemma civil_19361: "civilFromDays 19361 = (2023, 1, 4)"
  unfolding civilFromDays_def Let_def by simp

lemma iso_4_Jan: "toISOString (Some 1672851600000) = Inr ''2023-01-04T17:00:00.000Z''"
  unfolding toISOString_def Let_def
  by (simp add: civil_19361 msPerDay_def twoDigits_def threeDigits_def fourDigits_def
      digitChar_def)

lemma parseInt10_zero: "parseInt10 ''0'' = JInt 0"
  unfolding parseInt10_def roundToDouble_def Let_def
  by (simp add: startsWith_def char_defs decimalValue_def)

lemma intField_zero: "intField (JStr ''0'') = None"
  by (simp add: intField_def numOrNull_def parseInt10_zero)

lemma matchDate_scenario:
  "matchDate ''Started running on 1 Feb 2024. Total active time 10 hrs.'' = Some ''1 Feb 2024''"
  by (simp add: match_defs char_defs)

lemma matchTime_scenario:
  "matchTime ''Started running on 1 Feb 2024. Total active time 10 hrs.'' = Some ''10''"
  by (simp add: match_defs char_defs)

lemma dateParse_1_Feb: "dateParse tz ''1 Feb 2024'' = Some (1706745600000 - tz * 60000)"
  unfolding dateParse_def dayWrite_def daysFromCivil_def Let_def
  by (simp add: keywordTable_def toLower_def decimalValue_def char_defs isDay_def isMonth_def
      msPerDay_def)

lemma civil_19754: "civilFromDays 19754 = (2024, 2, 1)"
  unfolding civilFromDays_def Let_def by simp

lemma iso_1_Feb: "toISOString (Some 1706745600000) = Inr ''2024-02-01T00:00:00.000Z''"
  unfolding toISOString_def Let_def
  by (simp add: civil_19754 msPerDay_def twoDigits_def threeDigits_def fourDigits_def
      digitChar_def)

lemma parseInt10_10: "parseInt10 ''10'' = JInt 10"
  unfolding parseInt10_def roundToDouble_def Let_def
  by (simp add: startsWith_def char_defs decimalValue_def)

lemma parseAdDate_scenario:
  "parseAdDate 0 (JStr ''Started running on 1 Feb 2024. Total active time 10 hrs.'')
     = Inr (Some ''2024-02-01'', Some (JInt 10))"
  by (simp add: parseAdDate_def matchDate_scenario matchTime_scenario dateParse_1_Feb iso_1_Feb
      parseInt10_10 splitT0_def del: matchDate.simps matchTime.simps)

lemma transformRow_blankRow: "transformRow tz (blankRow i) = Inr (blankDest i)"
  by (simp add: transformRow_def blankRow_def blankDest_def parseAdDate_def jsOr_def intField_def)

lemma transformRow_scenarioRow:
  "transformRow 0 scenarioRow
     = Inr ((blankDest 2)\<lparr>dst_ad_date := Some ''2024-02-01'', dst_active_time_hr := Some (JInt 10)\<rparr>)"
  by (simp add: transformRow_def scenarioRow_def blankRow_def blankDest_def parseAdDate_scenario
      jsOr_def intField_def)

section \<open>parseAdDate on the spec's vectors\<close>

lemma matchDate_null_cases:
  "matchDate ''Total active time 48 hrs'' = None"
  "matchTime ''Total active time 48 hrs'' = Some ''48''"
  by (simp_all add: match_defs char_defs)

lemma matchDate_both:
  "matchDate ''Started running on 5 Jan 2023. Total active time 48 hrs.'' = Some ''5 Jan 2023''"
  "matchTime ''Started running on 5 Jan 2023. Total active time 48 hrs.'' = Some ''48''"
  by (simp_all add: match_defs char_defs)

lemma matchDate_malformed:
  "matchDate ''Started running on 35 Foo 2023'' = Some ''35 Foo 2023''"
  "matchTime ''Started running on 35 Foo 2023'' = None"
  by (simp_all add: match_defs char_defs)

lemma dateParse_malformed: "dateParse tz ''35 Foo 2023'' = None"
  unfolding dateParse_def dayWrite_def daysFromCivil_def Let_def
  by (simp add: keywordTable_def toLower_def decimalValue_def char_defs isDay_def isMonth_def
      msPerDay_def)

lemma parseInt10_48: "parseInt10 ''48'' = JInt 48"
  unfolding parseInt10_def roundToDouble_def Let_def
  by (simp add: startsWith_def char_defs decimalValue_def)

lemma civil_19362: "civilFromDays 19362 = (2023, 1, 5)"
  unfolding civilFromDays_def Let_def by simp

lemma digitChar_not_T: "digitChar n \<noteq> CHR ''T''"
proof -
  have "n mod 10 < 10" by simp
  then have "n mod 10 \<in> {0, 1, 2, 3, 4, 5, 6, 7, 8, 9}"
    by (simp only: insert_iff empty_iff) arith
  then show ?thesis by (auto simp: digitChar_def)
qed

text \<open>The date part of the ISO string of an instant, from the day it falls on.\<close>

lemma isoDate_of_day:
  assumes "t div msPerDay = dn" and "civilFromDays dn = (y, m, d)" and "0 \<le> y" and "y \<le> 9999"
  shows "\<exists>isoText. toISOString (Some t) = Inr isoText
      \<and> splitT0 isoText = fourDigits (nat y) @ ''-'' @ twoDigits (nat m) @ ''-'' @ twoDigits (nat d)"
  using assms
  by (simp add: toISOString_def Let_def splitT0_def fourDigits_def threeDigits_def twoDigits_def
      digitChar_not_T)

lemma day_of_east:
  assumes "0 < tz" and "tz \<le> 1440"
  shows "(1672876800000 - tz * 60000) div msPerDay = 19361"
proof -
  have "1672876800000 - tz * 60000 = msPerDay * 19361 + (86400000 - tz * 60000)"
    by (simp add: msPerDay_def)
  moreover have "0 \<le> 86400000 - tz * 60000" and "86400000 - tz * 60000 < msPerDay"
    using assms by (simp_all add: msPerDay_def)
  ultimately show ?thesis
    by (simp add: int_div_pos_eq msPerDay_def)
qed

lemma day_of_west:
  assumes "- 1440 < tz" and "tz \<le> 0"
  shows "(1672876800000 - tz * 60000) div msPerDay = 19362"
proof -
  have "1672876800000 - tz * 60000 = msPerDay * 19362 + (- tz * 60000)"
    by (simp add: msPerDay_def)
  moreover have "0 \<le> - tz * 60000" and "- tz * 60000 < msPerDay"
    using assms by (simp_all add: msPerDay_def)
  ultimately show ?thesis
    by (simp add: int_div_pos_eq msPerDay_def)
qed

lemma parseAdDate_5_Jan_east:
  assumes "0 < tz" and "tz \<le> 1440"
  shows "parseAdDate tz (JStr ''Started running on 5 Jan 2023'') = Inr (Some ''2023-01-04'', None)"
proof -
  from isoDate_of_day [OF day_of_east [OF assms] civil_19361]
  obtain isoText where "toISOString (Some (1672876800000 - tz * 60000)) = Inr isoText"
    and "splitT0 isoText = ''2023-01-04''"
    by (auto simp: fourDigits_def threeDigits_def twoDigits_def digitChar_def)
  then show ?thesis
    by (simp add: parseAdDate_def matchDate_5_Jan matchTime_5_Jan dateParse_5_Jan
        del: matchDate.simps matchTime.simps)
qed

lemma parseAdDate_5_Jan_west:
  assumes "- 1440 < tz" and "tz \<le> 0"
  shows "parseAdDate tz (JStr ''Started running on 5 Jan 2023'') = Inr (Some ''2023-01-05'', None)"
proof -
  from isoDate_of_day [OF day_of_west [OF assms] civil_19362]
  obtain isoText where "toISOString (Some (1672876800000 - tz * 60000)) = Inr isoText"
    and "splitT0 isoText = ''2023-01-05''"
    by (auto simp: fourDigits_def threeDigits_def twoDigits_def digitChar_def)
  then show ?thesis
    by (simp add: parseAdDate_def matchDate_5_Jan matchTime_5_Jan dateParse_5_Jan
        del: matchDate.simps matchTime.simps)
qed

lemma parseAdDate_vectors_utc:
  "parseAdDate 0 JNull = Inr (None, None)"
  "parseAdDate 0 (JStr ''Started running on 5 Jan 2023'') = Inr (Some ''2023-01-05'', None)"
  "parseAdDate 0 (JStr ''Total active time 48 hrs'') = Inr (None, Some (JInt 48))"
  "parseAdDate 0 (JStr ''Started running on 5 Jan 2023. Total active time 48 hrs.'')
     = Inr (Some ''2023-01-05'', Some (JInt 48))"
  "parseAdDate 0 (JStr ''Started running on 35 Foo 2023'') = Inr (None, None)"
proof -
  show "parseAdDate 0 JNull = Inr (None, None)" by (simp add: parseAdDate_def)
  show five: "parseAdDate 0 (JStr ''Started running on 5 Jan 2023'') = Inr (Some ''2023-01-05'', None)"
    by (rule parseAdDate_5_Jan_west) simp_all
  show "parseAdDate 0 (JStr ''Total active time 48 hrs'') = Inr (None, Some (JInt 48))"
    by (simp add: parseAdDate_def matchDate_null_cases parseInt10_48
        del: matchDate.simps matchTime.simps)
  from isoDate_of_day [OF day_of_west [of 0] civil_19362]
  obtain isoText where "toISOString (Some 1672876800000) = Inr isoText"
    and "splitT0 isoText = ''2023-01-05''"
    by (auto simp: fourDigits_def threeDigits_def twoDigits_def digitChar_def)
  then show "parseAdDate 0 (JStr ''Started running on 5 Jan 2023. Total active time 48 hrs.'')
     = Inr (Some ''2023-01-05'', Some (JInt 48))"
    using dateParse_5_Jan [of 0]
    by (simp add: parseAdDate_def matchDate_both parseInt10_48
        del: matchDate.simps matchTime.simps)
  show "parseAdDate 0 (JStr ''Started running on 35 Foo 2023'') = Inr (None, None)"
    by (simp add: parseAdDate_def matchDate_malformed dateParse_malformed
        del: matchDate.simps matchTime.simps)
qed

text \<open>The two extractions do not depend on each other.\<close>

lemma parseAdDate_independent:
  assumes "s \<noteq> []"
  shows "\<exists>date hrs. parseAdDate tz (JStr s) = Inr (date, hrs)
      \<and> (date = None \<or> (\<exists>tok. matchDate s = Some tok))
      \<and> hrs = map_option parseInt10 (matchTime s)
      \<and> (matchDate s = None \<longrightarrow> date = None)"
  using assms
  by (auto simp: parseAdDate_def Let_def split: option.splits sum.splits
      simp del: matchDate.simps matchTime.simps)

text \<open>A date that parseAdDate returns was cut before the first T: it has no time of day.\<close>

lemma parseAdDate_date_only:
  assumes "parseAdDate tz v = Inr (Some date, hrs)"
  shows "CHR ''T'' \<notin> set date"
proof -
  have "\<And>s. CHR ''T'' \<notin> set (splitT0 s)"
    by (auto simp: splitT0_def dest: set_takeWhileD)
  with assms show ?thesis
    by (auto simp: parseAdDate_def Let_def split: if_splits jsval.splits option.splits sum.splits
        simp del: matchDate.simps matchTime.simps)
qed

section \<open>Facts about transformRow and upsert\<close>

lemma transformRow_id: "transformRow tz row = Inr d \<Longrightarrow> dst_id d = src_id row"
  by (auto simp: transformRow_def split: sum.splits)

lemma transformRow_sync: "transformRow tz row = Inr d \<Longrightarrow> \<not> dst_opensearch_sync d"
  by (auto simp: transformRow_def split: sum.splits)

lemma mapE_Inr:
  "mapE f xs = Inr ys \<Longrightarrow> list_all2 (\<lambda>x y. f x = Inr y) xs ys"
  by (induction xs arbitrary: ys) (auto split: sum.splits)

lemma mapE_length: "mapE f xs = Inr ys \<Longrightarrow> length ys = length xs"
  by (drule mapE_Inr) (simp add: list_all2_lengthD)

lemma upsert_Nil [simp]: "upsert d [] = d"
  by (simp add: upsert_def)

lemma upsert_Cons [simp]: "upsert d (x # xs) = upsert (d(dst_id x \<mapsto> x)) xs"
  by (simp add: upsert_def)

lemma upsert_other: "k \<notin> dst_id ` set ds \<Longrightarrow> upsert d ds k = d k"
  by (induction ds arbitrary: d) auto

lemma upsert_hit:
  "\<forall>x\<in>set ds. P x \<Longrightarrow> k \<in> dst_id ` set ds \<Longrightarrow> \<exists>x. upsert d ds k = Some x \<and> P x \<and> dst_id x = k"
proof (induction ds arbitrary: d)
  case Nil
  then show ?case by simp
next
  case (Cons a ds)
  show ?case
  proof (cases "k \<in> dst_id ` set ds")
    case True
    with Cons show ?thesis by simp
  next
    case False
    with Cons.prems have "k = dst_id a" by auto
    with False Cons.prems show ?thesis by (simp add: upsert_other)
  qed
qed

lemma transformed_ids:
  "mapE (transformRow tz) rows = Inr ds \<Longrightarrow> map dst_id ds = map src_id rows"
proof (induction rows arbitrary: ds)
  case Nil
  then show ?case by simp
next
  case (Cons r rows)
  then show ?case by (auto split: sum.splits dest: transformRow_id)
qed

lemma transformed_sync:
  "mapE (transformRow tz) rows = Inr ds \<Longrightarrow> \<forall>d\<in>set ds. \<not> dst_opensearch_sync d"
proof (induction rows arbitrary: ds)
  case Nil
  then show ?case by simp
next
  case (Cons r rows)
  then show ?case by (auto split: sum.splits dest: transformRow_sync)
qed

lemma matchTimeHere_digits:
  "matchTimeHere s = Some ds \<Longrightarrow> ds \<noteq> [] \<and> list_all isDigit ds"
  by (auto simp: matchTimeHere_def Let_def list_all_iff split: if_splits dest: set_takeWhileD)

lemma matchTime_digits: "matchTime s = Some ds \<Longrightarrow> ds \<noteq> [] \<and> list_all isDigit ds"
proof (induction s)
  case Nil
  then show ?case using matchTimeHere_digits by simp
next
  case (Cons c cs)
  then show ?case using matchTimeHere_digits [of "c # cs" ds] by (auto split: option.splits)
qed

lemma isDigit_not_space: "isDigit c \<Longrightarrow> \<not> isWhiteSpace c"
  by (auto simp: isDigit_def isWhiteSpace_def)

lemma isDigit_not_sign: "isDigit c \<Longrightarrow> c \<noteq> CHR ''-'' \<and> c \<noteq> CHR ''+''"
  by (auto simp: isDigit_def)

lemma parseInt10_digits:
  assumes "ds \<noteq> []" and "list_all isDigit ds"
  shows "parseInt10 ds \<noteq> JNaN"
proof -
  from assms obtain c cs where ds: "ds = c # cs" and c: "isDigit c"
    by (cases ds) auto
  show ?thesis
    using c isDigit_not_space [OF c] isDigit_not_sign [OF c]
    by (simp add: parseInt10_def ds startsWith_def Let_def split: option.splits)
qed

lemma intField_not_NaN: "intField v \<noteq> Some JNaN"
  by (auto simp: intField_def numOrNull_def)

lemma parseAdDate_string_or_absent:
  assumes "v = JUndefined \<or> v = JNull \<or> (\<exists>s. v = JStr s)"
  shows "\<exists>date hrs. parseAdDate tz v = Inr (date, hrs) \<and> hrs \<noteq> Some JNaN"
proof -
  consider "\<not> truthy v" | s where "v = JStr s" "s \<noteq> []"
    using assms by (cases v) auto
  then show ?thesis
  proof cases
    case 1
    then show ?thesis by (simp add: parseAdDate_def)
  next
    case 2
    show ?thesis
    proof (cases "matchTime s")
      case None
      with 2 show ?thesis by (simp add: parseAdDate_def Let_def)
    next
      case (Some ds)
      then have "parseInt10 ds \<noteq> JNaN"
        using matchTime_digits parseInt10_digits by blast
      with 2 Some show ?thesis by (simp add: parseAdDate_def Let_def)
    qed
  qed
qed

lemma intField_never_zero: "intField v \<noteq> Some (JInt 0)"
  by (auto simp: intField_def numOrNull_def)

lemma intField_failure: "parseInt10 (ToString v) = JNaN \<Longrightarrow> intField v = None"
  by (simp add: intField_def numOrNull_def)

lemma parseAdDate_absent: "\<not> truthy v \<Longrightarrow> parseAdDate tz v = Inr (None, None)"
  by (simp add: parseAdDate_def)

lemma parseAdDate_text:
  assumes "parseAdDate tz (JStr s) = Inr (date, hrs)"
  shows "
     (matchDate s = None \<longrightarrow> date = None)
   \<and> (\<forall>tok. matchDate s = Some tok \<longrightarrow> dateParse tz tok = None \<longrightarrow> date = None)
   \<and> (\<forall>x. date = Some x \<longrightarrow>
        (\<exists>tok ms isoText. matchDate s = Some tok \<and> dateParse tz tok = Some ms
           \<and> toISOString (Some ms) = Inr isoText \<and> x = splitT0 isoText))
   \<and> (matchTime s = None \<longrightarrow> hrs = None)
   \<and> (\<forall>ds. matchTime s = Some ds \<longrightarrow> hrs = Some (parseInt10 ds))"
proof (cases "s = []")
  case True
  moreover have "matchDate [] = None" "matchTime [] = None"
    by (simp_all add: match_defs)
  ultimately show ?thesis using assms by (simp add: parseAdDate_def)
next
  case False
  with assms show ?thesis
    by (auto simp: parseAdDate_def Let_def split: option.splits sum.splits if_splits
        simp del: matchDate.simps matchTime.simps)
qed

lemma mapE_total:
  "\<forall>x\<in>set xs. \<exists>y. f x = Inr y \<Longrightarrow> \<exists>ys. mapE f xs = Inr ys"
  by (induction xs) auto

lemma mapE_member:
  "mapE f xs = Inr ys \<Longrightarrow> y \<in> set ys \<Longrightarrow> \<exists>x\<in>set xs. f x = Inr y"
  by (induction xs arbitrary: ys) (auto split: sum.splits)

lemma transformRow_defined:
  assumes "src_ad_date row = JUndefined \<or> src_ad_date row = JNull \<or> (\<exists>s. src_ad_date row = JStr s)"
  shows "\<exists>d. transformRow tz row = Inr d"
proof -
  from parseAdDate_string_or_absent [OF assms, of tz]
  obtain date hrs where "parseAdDate tz (src_ad_date row) = Inr (date, hrs)" by blast
  then show ?thesis by (simp add: transformRow_def)
qed

lemma upsert_Some_id:
  "upsert d ds i = Some y \<Longrightarrow> d i = Some y \<or> (y \<in> set ds \<and> dst_id y = i)"
proof (induction ds arbitrary: d)
  case Nil
  then show ?case by simp
next
  case (Cons a ds)
  from Cons.prems have "upsert (d(dst_id a \<mapsto> a)) ds i = Some y" by simp
  from Cons.IH [OF this]
  have "(d(dst_id a \<mapsto> a)) i = Some y \<or> (y \<in> set ds \<and> dst_id y = i)" .
  then show ?case by (auto split: if_splits)
qed

section \<open>Facts about the batch queries and the loops\<close>

declare upsertWithRetry_from.simps [simp del]

lemma called_simps [simp]:
  "destTable (called e w) = destTable w"
  "tick (called e w) = Suc (tick w)"
  "trace (called e w) = trace w @ [e]"
  by (simp_all add: called_def)

lemma sleep_simps [simp]:
  "destTable (sleep ms w) = destTable w"
  "tick (sleep ms w) = tick w"
  "trace (sleep ms w) = trace w @ [Sleep ms]"
  by (simp_all add: sleep_def)

lemma exitWith_simps [simp]:
  "exitCode (exitWith c v w) = c"
  "finalVars (exitWith c v w) = v"
  "finalWorld (exitWith c v w) = w"
  by (simp_all add: exitWith_def)

lemma finish_simps [simp]:
  "finalVars (finish env v w) = v"
  "finalWorld (finish env v w) = called Count w"
  by (simp_all add: finish_def split: reply.splits)

lemma finish_exitCode: "0 < totalErrors v \<Longrightarrow> exitCode (finish env v w) = 1"
  by (simp add: finish_def split: reply.splits)

lemma body_overwrite_fetch_error:
  assumes "answer env w = Err m"
  shows "body_overwrite env src v w =
     (if 10 < totalErrors v + 1
      then Done (finish env (v\<lparr>totalErrors := totalErrors v + 1, lastId := lastId v + 1000\<rparr>)
                  (called (Fetch (lastId v)) w))
      else Next (v\<lparr>totalErrors := totalErrors v + 1, lastId := lastId v + 1000\<rparr>)
             (called (Fetch (lastId v)) w))"
  using assms by (simp add: body_overwrite_def BATCH_SIZE_def Let_def)

lemma consecutive_fetch_errors:
  assumes "\<forall>j<k. \<exists>m. reply env (tick w + j) = Err m" and "totalErrors v + k \<le> 10"
  shows "runLoop (body_overwrite env src) (k + n) v w =
         runLoop (body_overwrite env src) n
           (v\<lparr>totalErrors := totalErrors v + k, lastId := lastId v + 1000 * int k\<rparr>)
           (w\<lparr>tick := tick w + k,
              trace := trace w @ map (\<lambda>j. Fetch (lastId v + 1000 * int j)) [0..<k]\<rparr>)"
  using assms
proof (induction k arbitrary: v w)
  case 0
  then show ?case by simp
next
  case (Suc k)
  from Suc.prems(1) obtain m where m: "answer env w = Err m"
    by (auto simp: answer_def dest: spec [of _ 0])
  let ?v = "v\<lparr>totalErrors := totalErrors v + 1, lastId := lastId v + 1000\<rparr>"
  let ?w = "called (Fetch (lastId v)) w"
  have step: "body_overwrite env src v w = Next ?v ?w"
    using Suc.prems(2) by (simp add: body_overwrite_fetch_error [OF m])
  have a: "\<forall>j<k. \<exists>m. reply env (tick ?w + j) = Err m"
  proof (intro allI impI)
    fix j assume "j < k"
    then have "Suc j < Suc k" by simp
    with Suc.prems(1) have "\<exists>m. reply env (tick w + Suc j) = Err m" by blast
    then show "\<exists>m. reply env (tick ?w + j) = Err m" by simp
  qed
  have b: "totalErrors ?v + k \<le> 10" using Suc.prems(2) by simp
  have maps: "map (\<lambda>j. Fetch (lastId v + 1000 * int j)) [0..<Suc k]
      = Fetch (lastId v) # map (\<lambda>j. Fetch (lastId v + 1000 + 1000 * int j)) [0..<k]"
    by (simp add: upt_conv_Cons map_Suc_upt [symmetric] algebra_simps del: upt_Suc)
  have vEq: "?v\<lparr>totalErrors := totalErrors ?v + k, lastId := lastId ?v + 1000 * int k\<rparr>
      = v\<lparr>totalErrors := totalErrors v + Suc k, lastId := lastId v + 1000 * int (Suc k)\<rparr>"
    by (simp add: algebra_simps)
  have wEq: "?w\<lparr>tick := tick ?w + k,
              trace := trace ?w @ map (\<lambda>j. Fetch (lastId ?v + 1000 * int j)) [0..<k]\<rparr>
      = w\<lparr>tick := tick w + Suc k,
           trace := trace w @ map (\<lambda>j. Fetch (lastId v + 1000 * int j)) [0..<Suc k]\<rparr>"
    by (simp add: maps called_def del: upt_Suc)
  have "runLoop (body_overwrite env src) (Suc k + n) v w
      = runLoop (body_overwrite env src) (k + n) ?v ?w"
    by (simp add: step)
  also have "\<dots> = runLoop (body_overwrite env src) n
           (?v\<lparr>totalErrors := totalErrors ?v + k, lastId := lastId ?v + 1000 * int k\<rparr>)
           (?w\<lparr>tick := tick ?w + k,
              trace := trace ?w @ map (\<lambda>j. Fetch (lastId ?v + 1000 * int j)) [0..<k]\<rparr>)"
    by (rule Suc.IH [OF a b])
  finally show ?case
    by (simp only: vEq wEq)
qed


lemma fetch_errors_abort:
  assumes "totalErrors v \<le> 10"
    and "\<forall>j<11 - totalErrors v. \<exists>m. reply env (tick w + j) = Err m"
  shows "runLoop (body_overwrite env src) (11 - totalErrors v + n) v w =
         Some (finish env
           (v\<lparr>totalErrors := 11, lastId := lastId v + 1000 * int (11 - totalErrors v)\<rparr>)
           (w\<lparr>tick := tick w + (11 - totalErrors v),
              trace := trace w @ map (\<lambda>j. Fetch (lastId v + 1000 * int j))
                                   [0..<11 - totalErrors v]\<rparr>))"
proof -
  define k where "k = 10 - totalErrors v"
  have k: "11 - totalErrors v = Suc k" and tk: "totalErrors v + k = 10"
    using assms(1) by (simp_all add: k_def)
  let ?v = "v\<lparr>totalErrors := totalErrors v + k, lastId := lastId v + 1000 * int k\<rparr>"
  let ?w = "w\<lparr>tick := tick w + k,
              trace := trace w @ map (\<lambda>j. Fetch (lastId v + 1000 * int j)) [0..<k]\<rparr>"
  have "\<forall>j<k. \<exists>m. reply env (tick w + j) = Err m"
    using assms(2) k by auto
  then have first: "runLoop (body_overwrite env src) (k + Suc n) v w
      = runLoop (body_overwrite env src) (Suc n) ?v ?w"
    using tk by (intro consecutive_fetch_errors) simp_all
  from assms(2) k obtain m where "reply env (tick w + k) = Err m" by auto
  then have m: "answer env ?w = Err m" by (simp add: answer_def)
  have last: "body_overwrite env src ?v ?w =
      Done (finish env (?v\<lparr>totalErrors := totalErrors ?v + 1, lastId := lastId ?v + 1000\<rparr>)
              (called (Fetch (lastId ?v)) ?w))"
    using tk by (simp add: body_overwrite_fetch_error [OF m])
  have vEq: "?v\<lparr>totalErrors := totalErrors ?v + 1, lastId := lastId ?v + 1000\<rparr>
      = v\<lparr>totalErrors := 11, lastId := lastId v + 1000 * int (Suc k)\<rparr>"
    using tk by (simp add: algebra_simps)
  have wEq: "called (Fetch (lastId ?v)) ?w
      = w\<lparr>tick := tick w + Suc k,
           trace := trace w @ map (\<lambda>j. Fetch (lastId v + 1000 * int j)) [0..<Suc k]\<rparr>"
    by (simp add: called_def)
  have "runLoop (body_overwrite env src) (Suc k + n) v w
      = runLoop (body_overwrite env src) (k + Suc n) v w" by simp
  also note first
  also have "runLoop (body_overwrite env src) (Suc n) ?v ?w
      = Some (finish env (?v\<lparr>totalErrors := totalErrors ?v + 1, lastId := lastId ?v + 1000\<rparr>)
              (called (Fetch (lastId ?v)) ?w))"
    by (simp add: last)
  finally show ?thesis
    by (simp only: vEq wEq k)
qed

lemma mainWith_counts_ok:
  assumes "reply env 0 = Ok" and "\<forall>m. reply env 1 \<noteq> Throw m"
  shows "mainWith body fuel env d0
      = runLoop body fuel initialVars (called Count (called Count (initialWorld d0)))"
  using assms
  by (cases "reply env 1") (simp_all add: mainWith_def answer_def initialWorld_def called_def Let_def)

lemma fetchPage_overwrite_set:
  "r \<in> set (fetchPage_overwrite src cursor) \<Longrightarrow> r \<in> set src \<and> cursor < src_id r"
  by (auto simp: fetchPage_overwrite_def dest!: in_set_takeD)

lemma fetchPage_same_filter:
  "0 < cursor \<Longrightarrow> fetchPage_prefilter src cursor = fetchPage_overwrite src cursor"
  by (simp add: fetchPage_prefilter_def fetchPage_overwrite_def)

lemma filter_all_positive:
  "\<forall>r\<in>set src. 0 < src_id r \<Longrightarrow> filter (\<lambda>r. 0 < src_id r) src = src"
  by (induction src) auto

lemma sort_key_head_least:
  assumes "sort_key f xs = y # ys" and "x \<in> set xs"
  shows "f y \<le> f x"
proof -
  have "sorted (map f (sort_key f xs))" by (rule sorted_sort_key)
  with assms(1) have "\<forall>z\<in>set ys. f y \<le> f z" by simp
  moreover have "x \<in> set (sort_key f xs)" using assms(2) by simp
  ultimately show ?thesis using assms(1) by auto
qed

lemma first_page_has_least:
  assumes "r \<in> set src"
  shows "\<exists>y \<in> set (fetchPage_prefilter src 0). src_id y \<le> src_id r"
proof -
  from assms have "sort_key src_id src \<noteq> []"
    by (metis empty_iff set_empty set_sort)
  then obtain y ys where s: "sort_key src_id src = y # ys"
    by (cases "sort_key src_id src") auto
  then have "src_id y \<le> src_id r" using assms by (rule sort_key_head_least)
  moreover have "y \<in> set (fetchPage_prefilter src 0)"
    by (simp add: fetchPage_prefilter_def s BATCH_SIZE_def)
  ultimately show ?thesis by blast
qed

lemma first_pages_agree_iff:
  "fetchPage_overwrite src 0 = fetchPage_prefilter src 0 \<longleftrightarrow> (\<forall>r\<in>set src. 0 < src_id r)"
proof
  assume eq: "fetchPage_overwrite src 0 = fetchPage_prefilter src 0"
  show "\<forall>r\<in>set src. 0 < src_id r"
  proof
    fix r assume "r \<in> set src"
    then obtain y where y: "y \<in> set (fetchPage_prefilter src 0)" and le: "src_id y \<le> src_id r"
      using first_page_has_least by blast
    from y eq have "0 < src_id y" using fetchPage_overwrite_set by metis
    with le show "0 < src_id r" by simp
  qed
next
  assume "\<forall>r\<in>set src. 0 < src_id r"
  then show "fetchPage_overwrite src 0 = fetchPage_prefilter src 0"
    by (simp add: fetchPage_overwrite_def fetchPage_prefilter_def filter_all_positive)
qed

lemma runLoop_invariant:
  assumes "runLoop body n v w = Some r" and "I v w"
    and step: "\<And>v w v' w'. I v w \<Longrightarrow> body v w = Next v' w' \<Longrightarrow> I v' w'"
    and fin: "\<And>v w r. I v w \<Longrightarrow> body v w = Done r \<Longrightarrow> Q r"
  shows "Q r"
  using assms(1,2)
proof (induction n arbitrary: v w)
  case 0
  then show ?case by simp
next
  case (Suc n)
  show ?case
  proof (cases "body v w")
    case (Done r')
    with Suc.prems show ?thesis using fin by auto
  next
    case (Next v' w')
    with Suc.prems have "runLoop body n v' w' = Some r" and "I v' w'"
      using step by auto
    then show ?thesis by (rule Suc.IH)
  qed
qed

lemma last_in_page:
  assumes "fetchPage_overwrite src cursor \<noteq> []"
  shows "cursor < src_id (last (fetchPage_overwrite src cursor))"
  using assms fetchPage_overwrite_set [of "last (fetchPage_overwrite src cursor)" src cursor]
  by simp

lemma body_overwrite_Next:
  assumes "body_overwrite env src v w = Next v' w'" and "0 \<le> lastId v" and "i \<le> 0"
  shows "0 \<le> lastId v' \<and> destTable w' i = destTable w i"
proof (cases "answer env w")
  case Ok
  let ?rows = "fetchPage_overwrite src (lastId v)"
  from assms(1) Ok have ne: "?rows \<noteq> []"
    by (auto simp: body_overwrite_def Let_def split: if_splits)
  from assms(1) Ok ne obtain ds where ds: "mapE (transformRow (localOffset env)) ?rows = Inr ds"
    by (auto simp: body_overwrite_def Let_def split: sum.splits)
  have "\<forall>r\<in>set ?rows. 0 < src_id r"
    using fetchPage_overwrite_set assms(2) by fastforce
  then have "i \<notin> src_id ` set ?rows" using assms(3) by auto
  then have notin: "i \<notin> dst_id ` set ds"
    using transformed_ids [OF ds] by (metis set_map)
  have "lastId v < src_id (last ?rows)" using ne by (rule last_in_page)
  with assms(1,2) Ok ne ds notin show ?thesis
    by (auto simp: body_overwrite_def Let_def upsert_other split: reply.splits)
next
  case (Err m)
  with assms show ?thesis
    by (auto simp: body_overwrite_fetch_error split: if_splits)
next
  case (Throw m)
  with assms show ?thesis by (simp add: body_overwrite_def Let_def)
qed

lemma body_overwrite_Done:
  assumes "body_overwrite env src v w = Done r"
  shows "destTable (finalWorld r) = destTable w"
  using assms
  by (auto simp: body_overwrite_def Let_def split: reply.splits if_splits sum.splits)

lemma loop_overwrite_skips_nonpositive:
  assumes "runLoop (body_overwrite env src) n v w = Some r" and "0 \<le> lastId v" and "i \<le> 0"
  shows "destTable (finalWorld r) i = destTable w i"
proof -
  let ?I = "\<lambda>v' w'. 0 \<le> lastId v' \<and> destTable w' i = destTable w i"
  show ?thesis
  proof (rule runLoop_invariant [where I = ?I and body = "body_overwrite env src", OF assms(1)])
    show "?I v w" using assms(2) by simp
  next
    fix v1 w1 v2 w2
    assume "?I v1 w1" and "body_overwrite env src v1 w1 = Next v2 w2"
    then show "?I v2 w2" using body_overwrite_Next [of env src v1 w1 v2 w2 i] assms(3) by simp
  next
    fix v1 w1 r1
    assume "?I v1 w1" and "body_overwrite env src v1 w1 = Done r1"
    then show "destTable (finalWorld r1) i = destTable w i"
      using body_overwrite_Done by simp
  qed
qed

lemma mainWith_cases:
  "mainWith body fuel env d0 = Some (exitWith 1 initialVars (called Count (initialWorld d0)))
   \<or> mainWith body fuel env d0
       = Some (exitWith 1 initialVars (called Count (called Count (initialWorld d0))))
   \<or> mainWith body fuel env d0
       = runLoop body fuel initialVars (called Count (called Count (initialWorld d0)))"
  by (simp add: mainWith_def Let_def split: reply.splits)

lemma main_overwrite_skips_nonpositive:
  assumes "main_overwrite fuel env src d0 = Some r" and "i \<le> 0"
  shows "destTable (finalWorld r) i = d0 i"
proof -
  let ?w = "called Count (called Count (initialWorld d0))"
  from mainWith_cases [of "body_overwrite env src" fuel env d0] assms(1)
  consider "r = exitWith 1 initialVars (called Count (initialWorld d0))"
    | "r = exitWith 1 initialVars ?w"
    | "runLoop (body_overwrite env src) fuel initialVars ?w = Some r"
    unfolding main_overwrite_def by auto
  then show ?thesis
  proof cases
    case 3
    have "destTable (finalWorld r) i = destTable ?w i"
      by (rule loop_overwrite_skips_nonpositive [OF 3 _ assms(2)]) (simp add: initialVars_def)
    then show ?thesis by (simp add: initialWorld_def)
  qed (simp_all add: initialWorld_def)
qed

lemma answer_okEnv [simp]: "answer (okEnv tz) w = Ok"
  by (simp add: answer_def okEnv_def)

lemma localOffset_okEnv [simp]: "localOffset (okEnv tz) = tz"
  by (simp add: okEnv_def)

lemma src_id_blankRow [simp]: "src_id (blankRow i) = i"
  by (simp add: blankRow_def)

lemma dst_id_blankDest [simp]: "dst_id (blankDest i) = i"
  by (simp add: blankDest_def)

lemma page1: "fetchPage_overwrite [blankRow 1, blankRow 0] 0 = [blankRow 1]"
  by (simp add: fetchPage_overwrite_def BATCH_SIZE_def)

lemma page2: "fetchPage_overwrite [blankRow 1, blankRow 0] 1 = []"
  by (simp add: fetchPage_overwrite_def BATCH_SIZE_def)

lemma page1p: "fetchPage_prefilter [blankRow 1, blankRow 0] 0 = [blankRow 0, blankRow 1]"
  by (simp add: fetchPage_prefilter_def BATCH_SIZE_def)

lemma run_overwrite_example:
  "main_overwrite 2 (okEnv 0) [blankRow 1, blankRow 0] Map.empty =
     Some \<lparr>exitCode = 0,
           finalVars = \<lparr>lastId = 1, totalProcessed = 1, totalUpserted = 1, totalErrors = 0\<rparr>,
           finalWorld = \<lparr>destTable = [1 \<mapsto> blankDest 1], tick = 6,
             trace = [Count, Count, Fetch 0, Upsert [blankDest 1], Fetch 1, Count]\<rparr>\<rparr>"
  by (simp add: main_overwrite_def mainWith_def numeral_2_eq_2 body_overwrite_def page1 page2
      transformRow_blankRow initialVars_def initialWorld_def called_def finish_def exitWith_def)

lemma body_overwrite_upsert_error:
  assumes "answer env w = Ok" and "fetchPage_overwrite src (lastId v) \<noteq> []"
    and "mapE (transformRow (localOffset env)) (fetchPage_overwrite src (lastId v)) = Inr ds"
    and "answer env (called (Fetch (lastId v)) w) = Err m"
  shows "body_overwrite env src v w =
     Next (v\<lparr>totalErrors := totalErrors v + 1,
             totalProcessed := totalProcessed v + length (fetchPage_overwrite src (lastId v)),
             lastId := src_id (last (fetchPage_overwrite src (lastId v)))\<rparr>)
          (called (Upsert ds) (called (Fetch (lastId v)) w))"
  using assms by (simp add: body_overwrite_def Let_def)

lemma fetch_errors_abort_result:
  assumes "totalErrors v \<le> 10"
    and "\<forall>j<11 - totalErrors v. \<exists>m. reply env (tick w + j) = Err m"
  shows "\<exists>res. runLoop (body_overwrite env src) (11 - totalErrors v + n) v w = Some res
      \<and> exitCode res = 1 \<and> totalErrors (finalVars res) = 11
      \<and> lastId (finalVars res) = lastId v + 1000 * int (11 - totalErrors v)
      \<and> totalProcessed (finalVars res) = totalProcessed v
      \<and> totalUpserted (finalVars res) = totalUpserted v
      \<and> destTable (finalWorld res) = destTable w
      \<and> trace (finalWorld res)
          = trace w @ map (\<lambda>j. Fetch (lastId v + 1000 * int j)) [0..<11 - totalErrors v] @ [Count]"
  by (simp add: fetch_errors_abort [OF assms] finish_exitCode)

lemma page_blankRow1: "fetchPage_overwrite [blankRow 1] 0 = [blankRow 1]"
  by (simp add: fetchPage_overwrite_def BATCH_SIZE_def)

lemma late_failures_step1:
  "body_overwrite lateFailuresEnv [blankRow 1] initialVars
       (called Count (called Count (initialWorld Map.empty)))
     = Next \<lparr>lastId = 1, totalProcessed = 1, totalUpserted = 0, totalErrors = 1\<rparr>
         \<lparr>destTable = Map.empty, tick = 4, trace = [Count, Count, Fetch 0, Upsert [blankDest 1]]\<rparr>"
  by (simp add: body_overwrite_def Let_def answer_def lateFailuresEnv_def initialVars_def
      initialWorld_def called_def page_blankRow1 transformRow_blankRow)

lemma run_late_failures:
  "main_overwrite 11 lateFailuresEnv [blankRow 1] Map.empty =
     Some \<lparr>exitCode = 1,
           finalVars = \<lparr>lastId = 10001, totalProcessed = 1, totalUpserted = 0, totalErrors = 11\<rparr>,
           finalWorld = \<lparr>destTable = Map.empty, tick = 15,
             trace = [Count, Count, Fetch 0, Upsert [blankDest 1],
                      Fetch 1, Fetch 1001, Fetch 2001, Fetch 3001, Fetch 4001,
                      Fetch 5001, Fetch 6001, Fetch 7001, Fetch 8001, Fetch 9001, Count]\<rparr>\<rparr>"
proof -
  let ?E = lateFailuresEnv
  let ?w = "called Count (called Count (initialWorld Map.empty))"
  let ?v1 = "\<lparr>lastId = 1, totalProcessed = 1, totalUpserted = 0, totalErrors = 1\<rparr>"
  let ?w1 = "\<lparr>destTable = Map.empty, tick = 4,
      trace = [Count, Count, Fetch 0, Upsert [blankDest 1]]\<rparr> :: world"
  have m: "main_overwrite (Suc 10) ?E [blankRow 1] Map.empty
      = runLoop (body_overwrite ?E [blankRow 1]) (Suc 10) initialVars ?w"
    unfolding main_overwrite_def by (rule mainWith_counts_ok) (simp_all add: lateFailuresEnv_def)
  have e: "\<forall>j<11 - totalErrors ?v1. \<exists>m. reply ?E (tick ?w1 + j) = Err m"
    by (simp add: lateFailuresEnv_def)
  have "runLoop (body_overwrite ?E [blankRow 1]) (11 - totalErrors ?v1 + 0) ?v1 ?w1
      = Some (finish ?E
           (?v1\<lparr>totalErrors := 11, lastId := lastId ?v1 + 1000 * int (11 - totalErrors ?v1)\<rparr>)
           (?w1\<lparr>tick := tick ?w1 + (11 - totalErrors ?v1),
              trace := trace ?w1 @ map (\<lambda>j. Fetch (lastId ?v1 + 1000 * int j))
                                   [0..<11 - totalErrors ?v1]\<rparr>))"
    by (rule fetch_errors_abort [OF _ e]) simp
  then have r: "runLoop (body_overwrite ?E [blankRow 1]) 10 ?v1 ?w1
      = Some \<lparr>exitCode = 1,
           finalVars = \<lparr>lastId = 10001, totalProcessed = 1, totalUpserted = 0, totalErrors = 11\<rparr>,
           finalWorld = \<lparr>destTable = Map.empty, tick = 15,
             trace = [Count, Count, Fetch 0, Upsert [blankDest 1],
                      Fetch 1, Fetch 1001, Fetch 2001, Fetch 3001, Fetch 4001,
                      Fetch 5001, Fetch 6001, Fetch 7001, Fetch 8001, Fetch 9001, Count]\<rparr>\<rparr>"
    by (simp add: finish_def exitWith_def answer_def lateFailuresEnv_def called_def upt_rec)
  have s: "runLoop (body_overwrite ?E [blankRow 1]) (Suc 10) initialVars ?w
      = runLoop (body_overwrite ?E [blankRow 1]) 10 ?v1 ?w1"
    by (simp only: runLoop.simps late_failures_step1 step.case)
  have "(11::nat) = Suc 10" by simp
  then show ?thesis by (simp only: m s r)
qed

lemma take_sorted_covers:
  assumes "sorted (map f xs)" and "x \<in> set xs" and "take n xs \<noteq> []"
    and "f x \<le> f (last (take n xs))"
  shows "f x \<in> f ` set (take n xs)"
proof (cases "x \<in> set (take n xs)")
  case True
  then show ?thesis by simp
next
  case False
  have "set xs = set (take n xs) \<union> set (drop n xs)"
    by (metis append_take_drop_id set_append)
  with assms(2) False have x: "x \<in> set (drop n xs)" by simp
  have "sorted (map f (take n xs) @ map f (drop n xs))"
    using assms(1) by (metis append_take_drop_id map_append)
  then have "\<forall>a\<in>set (take n xs). \<forall>b\<in>set (drop n xs). f a \<le> f b"
    by (auto simp: sorted_append)
  moreover have l: "last (take n xs) \<in> set (take n xs)" using assms(3) by simp
  ultimately have "f (last (take n xs)) \<le> f x" using x by blast
  with assms(4) have "f x = f (last (take n xs))" by simp
  with l show ?thesis by (metis imageI)
qed

lemma page_covers:
  assumes "r \<in> set src" and "cursor < src_id r"
    and "fetchPage_overwrite src cursor \<noteq> []"
    and "src_id r \<le> src_id (last (fetchPage_overwrite src cursor))"
  shows "src_id r \<in> src_id ` set (fetchPage_overwrite src cursor)"
proof -
  let ?xs = "sort_key src_id (filter (\<lambda>r. cursor < src_id r) src)"
  have "sorted (map src_id ?xs)" by (rule sorted_sort_key)
  moreover have "r \<in> set ?xs" using assms(1,2) by simp
  ultimately show ?thesis
    using assms(3,4) unfolding fetchPage_overwrite_def by (rule take_sorted_covers)
qed

lemma page_empty:
  assumes "fetchPage_overwrite src cursor = []" and "r \<in> set src"
  shows "\<not> cursor < src_id r"
proof
  assume "cursor < src_id r"
  with assms(2) have r: "r \<in> set (filter (\<lambda>r. cursor < src_id r) src)" by simp
  have "sort_key src_id (filter (\<lambda>r. cursor < src_id r) src) = []"
    using assms(1) by (simp add: fetchPage_overwrite_def BATCH_SIZE_def)
  then have "set (sort_key src_id (filter (\<lambda>r. cursor < src_id r) src)) = {}"
    by (simp only: set_empty)
  then have "set (filter (\<lambda>r. cursor < src_id r) src) = {}"
    by (simp only: set_sort)
  with r show False by (metis empty_iff)
qed

lemma body_overwrite_Next_keeps:
  assumes "body_overwrite env src v w = Next v' w'" and "i \<le> lastId v"
  shows "i \<le> lastId v' \<and> destTable w' i = destTable w i"
proof (cases "answer env w")
  case Ok
  let ?rows = "fetchPage_overwrite src (lastId v)"
  from assms(1) Ok have ne: "?rows \<noteq> []"
    by (auto simp: body_overwrite_def Let_def split: if_splits)
  from assms(1) Ok ne obtain ds where ds: "mapE (transformRow (localOffset env)) ?rows = Inr ds"
    by (auto simp: body_overwrite_def Let_def split: sum.splits)
  have "\<forall>r\<in>set ?rows. lastId v < src_id r"
    using fetchPage_overwrite_set by blast
  then have "i \<notin> src_id ` set ?rows" using assms(2) by auto
  then have notin: "i \<notin> dst_id ` set ds"
    using transformed_ids [OF ds] by (metis set_map)
  have "lastId v < src_id (last ?rows)" using ne by (rule last_in_page)
  with assms Ok ne ds notin show ?thesis
    by (auto simp: body_overwrite_def Let_def upsert_other split: reply.splits)
next
  case (Err m)
  with assms show ?thesis
    by (auto simp: body_overwrite_fetch_error split: if_splits)
next
  case (Throw m)
  with assms show ?thesis by (simp add: body_overwrite_def Let_def)
qed

lemma loop_overwrite_keeps:
  assumes "runLoop (body_overwrite env src) n v w = Some r" and "i \<le> lastId v"
  shows "destTable (finalWorld r) i = destTable w i"
proof -
  let ?I = "\<lambda>v' w'. i \<le> lastId v' \<and> destTable w' i = destTable w i"
  show ?thesis
  proof (rule runLoop_invariant [where I = ?I and body = "body_overwrite env src", OF assms(1)])
    show "?I v w" using assms(2) by simp
  next
    fix v1 w1 v2 w2
    assume "?I v1 w1" and "body_overwrite env src v1 w1 = Next v2 w2"
    then show "?I v2 w2" using body_overwrite_Next_keeps [of env src v1 w1 v2 w2 i] by simp
  next
    fix v1 w1 r1
    assume "?I v1 w1" and "body_overwrite env src v1 w1 = Done r1"
    then show "destTable (finalWorld r1) i = destTable w i"
      using body_overwrite_Done by simp
  qed
qed

section \<open>Facts about upsertWithRetry and the loop of part_000\<close>

lemma retry_attempt_ok:
  assumes "attempt \<le> maxRetries" and "answer env w = Ok"
  shows "upsertWithRetry_from env data maxRetries attempt w =
     (Some \<lparr>success = True, error = None\<rparr>,
      (called (Upsert data) w)\<lparr>destTable := upsert (destTable w) data\<rparr>)"
  using assms by (subst upsertWithRetry_from.simps) simp

lemma retry_attempt_again:
  assumes "attempt < maxRetries" and "answer env w \<noteq> Ok"
  shows "upsertWithRetry_from env data maxRetries attempt w =
     upsertWithRetry_from env data maxRetries (Suc attempt)
       (sleep RETRY_DELAY (called (Upsert data) w))"
  using assms by (subst upsertWithRetry_from.simps) (auto split: reply.splits)

lemma retry_attempt_last:
  assumes "answer env w \<noteq> Ok"
  shows "upsertWithRetry_from env data maxRetries maxRetries w =
     (Some \<lparr>success = False, error = Some (messageOf (answer env w))\<rparr>, called (Upsert data) w)"
  using assms by (subst upsertWithRetry_from.simps) (auto simp: messageOf_def split: reply.splits)

lemma answer_after [simp]:
  "answer env (called e w) = reply env (Suc (tick w))"
  "answer env (sleep ms w) = answer env w"
  by (simp_all add: answer_def)

text \<open>The four ways three attempts can go.\<close>

lemma upsertWithRetry_ok1:
  assumes "reply env (tick w) = Ok"
  shows "upsertWithRetry env data MAX_RETRIES w =
     (Some \<lparr>success = True, error = None\<rparr>,
      w\<lparr>destTable := upsert (destTable w) data, tick := tick w + 1,
        trace := trace w @ [Upsert data]\<rparr>)"
  using assms
  by (simp add: upsertWithRetry_def MAX_RETRIES_def retry_attempt_ok answer_def called_def)

lemma upsertWithRetry_ok2:
  assumes "reply env (tick w) \<noteq> Ok" and "reply env (tick w + 1) = Ok"
  shows "upsertWithRetry env data MAX_RETRIES w =
     (Some \<lparr>success = True, error = None\<rparr>,
      w\<lparr>destTable := upsert (destTable w) data, tick := tick w + 2,
        trace := trace w @ [Upsert data, Sleep 1000, Upsert data]\<rparr>)"
  using assms
  by (simp add: upsertWithRetry_def MAX_RETRIES_def RETRY_DELAY_def retry_attempt_ok
      retry_attempt_again answer_def called_def sleep_def)

lemma upsertWithRetry_ok3:
  assumes "reply env (tick w) \<noteq> Ok" and "reply env (tick w + 1) \<noteq> Ok"
    and "reply env (tick w + 2) = Ok"
  shows "upsertWithRetry env data MAX_RETRIES w =
     (Some \<lparr>success = True, error = None\<rparr>,
      w\<lparr>destTable := upsert (destTable w) data, tick := tick w + 3,
        trace := trace w @ [Upsert data, Sleep 1000, Upsert data, Sleep 1000, Upsert data]\<rparr>)"
  using assms
  by (simp add: upsertWithRetry_def MAX_RETRIES_def RETRY_DELAY_def retry_attempt_ok
      retry_attempt_again answer_def called_def sleep_def numeral_3_eq_3 numeral_2_eq_2)

lemma upsertWithRetry_fail:
  assumes "reply env (tick w) \<noteq> Ok" and "reply env (tick w + 1) \<noteq> Ok"
    and "reply env (tick w + 2) \<noteq> Ok"
  shows "upsertWithRetry env data MAX_RETRIES w =
     (Some \<lparr>success = False, error = Some (messageOf (reply env (tick w + 2)))\<rparr>,
      w\<lparr>tick := tick w + 3,
        trace := trace w @ [Upsert data, Sleep 1000, Upsert data, Sleep 1000, Upsert data]\<rparr>)"
proof -
  have a1: "upsertWithRetry_from env data 3 1 w
      = upsertWithRetry_from env data 3 2 (sleep 1000 (called (Upsert data) w))"
    using assms(1) retry_attempt_again [of 1 3 env w data]
    by (simp add: answer_def RETRY_DELAY_def numeral_2_eq_2)
  have a2: "upsertWithRetry_from env data 3 2 (sleep 1000 (called (Upsert data) w))
      = upsertWithRetry_from env data 3 3
          (sleep 1000 (called (Upsert data) (sleep 1000 (called (Upsert data) w))))"
    using assms(2)
      retry_attempt_again [of 2 3 env "sleep 1000 (called (Upsert data) w)" data]
    by (simp add: RETRY_DELAY_def numeral_3_eq_3 numeral_2_eq_2)
  have a3: "upsertWithRetry_from env data 3 3
          (sleep 1000 (called (Upsert data) (sleep 1000 (called (Upsert data) w))))
      = (Some \<lparr>success = False, error = Some (messageOf (reply env (tick w + 2)))\<rparr>,
         called (Upsert data)
           (sleep 1000 (called (Upsert data) (sleep 1000 (called (Upsert data) w)))))"
    using assms(3)
      retry_attempt_last [of env
        "sleep 1000 (called (Upsert data) (sleep 1000 (called (Upsert data) w)))" data 3]
    by (simp add: called_def sleep_def answer_def)
  have "upsertWithRetry env data MAX_RETRIES w = upsertWithRetry_from env data 3 1 w"
    by (simp add: upsertWithRetry_def MAX_RETRIES_def)
  also note a1
  also note a2
  also note a3
  finally show ?thesis by (simp add: called_def sleep_def)
qed

lemma body_prefilter_upsert:
  assumes "answer env w = Ok"
    and "fetchPage_prefilter src (lastId v) = rows" and "rows \<noteq> []"
    and "mapE (transformRow (localOffset env)) rows = Inr transformed"
    and "\<forall>m. reply env (Suc (tick w)) \<noteq> Throw m"
    and "filter (\<lambda>record. dst_id record \<notin>
            set (existingOf (reply env (Suc (tick w))) (destTable w) (map src_id rows)))
          transformed = newRecords"
    and "newRecords \<noteq> []"
  shows "body_prefilter env src v w =
     (case upsertWithRetry env newRecords MAX_RETRIES
             (called (Exists (map src_id rows)) (called (Fetch (lastId v)) w)) of
        (None, w3) \<Rightarrow> Done (exitWith 1 v w3)
      | (Some retryResult, w3) \<Rightarrow>
          (if error retryResult \<noteq> None
           then Next (v\<lparr>totalProcessed := totalProcessed v + length rows,
                       lastId := src_id (last rows),
                       totalErrors := totalErrors v + 1\<rparr>) w3
           else Next (v\<lparr>totalProcessed := totalProcessed v + length rows,
                       lastId := src_id (last rows),
                       totalUpserted := totalUpserted v + length newRecords\<rparr>) w3))"
  using assms
  by (cases "reply env (Suc (tick w))")
     (auto simp: body_prefilter_def Let_def split: prod.splits option.splits)

lemma body_prefilter_skip:
  assumes "answer env w = Ok"
    and "fetchPage_prefilter src (lastId v) = rows" and "rows \<noteq> []"
    and "mapE (transformRow (localOffset env)) rows = Inr transformed"
    and "\<forall>m. reply env (Suc (tick w)) \<noteq> Throw m"
    and "filter (\<lambda>record. dst_id record \<notin>
            set (existingOf (reply env (Suc (tick w))) (destTable w) (map src_id rows)))
          transformed = []"
  shows "body_prefilter env src v w =
     Next (v\<lparr>totalProcessed := totalProcessed v + length rows, lastId := src_id (last rows)\<rparr>)
          (called (Exists (map src_id rows)) (called (Fetch (lastId v)) w))"
  using assms
  by (cases "reply env (Suc (tick w))") (auto simp: body_prefilter_def Let_def)


lemma upsertWithRetry_trace:
  "trace (snd (upsertWithRetry env data MAX_RETRIES w)) \<in>
      {trace w @ [Upsert data],
       trace w @ [Upsert data, Sleep 1000, Upsert data],
       trace w @ [Upsert data, Sleep 1000, Upsert data, Sleep 1000, Upsert data]}
   \<and> fst (upsertWithRetry env data MAX_RETRIES w) \<noteq> None"
proof (cases "reply env (tick w) = Ok")
  case True
  then show ?thesis by (simp add: upsertWithRetry_ok1)
next
  case f1: False
  show ?thesis
  proof (cases "reply env (tick w + 1) = Ok")
    case True
    with f1 show ?thesis by (simp add: upsertWithRetry_ok2)
  next
    case f2: False
    show ?thesis
    proof (cases "reply env (tick w + 2) = Ok")
      case True
      with f1 f2 show ?thesis by (simp add: upsertWithRetry_ok3)
    next
      case False
      with f1 f2 show ?thesis by (simp add: upsertWithRetry_fail)
    qed
  qed
qed

lemma body_prefilter_done:
  assumes "answer env w = Ok" and "fetchPage_prefilter src (lastId v) = []"
  shows "body_prefilter env src v w = Done (finish env v (called (Fetch (lastId v)) w))"
  using assms by (simp add: body_prefilter_def Let_def)

lemma body_overwrite_done:
  assumes "answer env w = Ok" and "fetchPage_overwrite src (lastId v) = []"
  shows "body_overwrite env src v w = Done (finish env v (called (Fetch (lastId v)) w))"
  using assms by (simp add: body_overwrite_def Let_def)

lemma runLoop_Next: "body v w = Next v' w' \<Longrightarrow> runLoop body (Suc n) v w = runLoop body n v' w'"
  by simp

lemma runLoop_Done: "body v w = Done r \<Longrightarrow> runLoop body (Suc n) v w = Some r"
  by simp

lemma prefilter_page1: "fetchPage_prefilter [blankRow 1] 0 = [blankRow 1]"
  by (simp add: fetchPage_prefilter_def BATCH_SIZE_def)

lemma prefilter_page2: "fetchPage_prefilter [blankRow 1] 1 = []"
  by (simp add: fetchPage_prefilter_def BATCH_SIZE_def)

lemma mapE_blankRow: "mapE (transformRow tz) [blankRow i] = Inr [blankDest i]"
  by (simp add: transformRow_blankRow)

lemma run_upsert_fails:
  "main_prefilter 2 upsertFailsEnv [blankRow 1] Map.empty =
     Some \<lparr>exitCode = 1,
           finalVars = \<lparr>lastId = 1, totalProcessed = 1, totalUpserted = 0, totalErrors = 1\<rparr>,
           finalWorld = \<lparr>destTable = Map.empty, tick = 9,
             trace = [Count, Count, Fetch 0, Exists [1], Upsert [blankDest 1], Sleep 1000,
               Upsert [blankDest 1], Sleep 1000, Upsert [blankDest 1], Fetch 1, Count]\<rparr>\<rparr>"
proof -
  let ?E = upsertFailsEnv
  let ?w = "called Count (called Count (initialWorld Map.empty))"
  let ?v1 = "\<lparr>lastId = 1, totalProcessed = 1, totalUpserted = 0, totalErrors = 1\<rparr>"
  let ?w1 = "\<lparr>destTable = Map.empty, tick = 7,
      trace = [Count, Count, Fetch 0, Exists [1], Upsert [blankDest 1], Sleep 1000,
               Upsert [blankDest 1], Sleep 1000, Upsert [blankDest 1]]\<rparr>"
  have m: "main_prefilter (Suc (Suc 0)) ?E [blankRow 1] Map.empty
      = runLoop (body_prefilter ?E [blankRow 1]) (Suc (Suc 0)) initialVars ?w"
    unfolding main_prefilter_def by (rule mainWith_counts_ok) (simp_all add: upsertFailsEnv_def)
  have step1: "body_prefilter ?E [blankRow 1] initialVars ?w = Next ?v1 ?w1"
    by (simp add: body_prefilter_def answer_def upsertWithRetry_fail prefilter_page1 initialVars_def
        transformRow_blankRow upsertFailsEnv_def existingOf_def initialWorld_def Let_def called_def)
  have step2: "body_prefilter ?E [blankRow 1] ?v1 ?w1 = Done (finish ?E ?v1 (called (Fetch 1) ?w1))"
    by (simp add: body_prefilter_done answer_def upsertFailsEnv_def prefilter_page2)
  have "main_prefilter 2 ?E [blankRow 1] Map.empty = Some (finish ?E ?v1 (called (Fetch 1) ?w1))"
    unfolding numeral_2_eq_2 m by (simp only: runLoop.simps step1 step2 step.case)
  then show ?thesis
    by (simp add: finish_def exitWith_def answer_def upsertFailsEnv_def called_def)
qed

lemma syncedRow_simps [simp]: "dst_id (syncedRow i) = i" "dst_opensearch_sync (syncedRow i)"
  by (simp_all add: syncedRow_def)

section \<open>Facts about whole runs\<close>

lemma upsert_map_add: "upsert (d ++ m) ds = d ++ upsert m ds"
proof (induction ds arbitrary: m)
  case Nil
  show ?case by simp
next
  case (Cons a ds)
  have "(d ++ m)(dst_id a \<mapsto> a) = d ++ m(dst_id a \<mapsto> a)" by simp
  then have "upsert (d ++ m) (a # ds) = upsert (d ++ m(dst_id a \<mapsto> a)) ds"
    by (simp only: upsert_Cons)
  also have "\<dots> = d ++ upsert (m(dst_id a \<mapsto> a)) ds" by (rule Cons.IH)
  finally show ?case by (simp only: upsert_Cons)
qed

lemma upsert_as_override: "upsert d ds = d ++ upsert Map.empty ds"
  using upsert_map_add [of d Map.empty ds] by simp

lemma upsert_Some:
  "upsert d ds i = Some y \<Longrightarrow> d i = Some y \<or> y \<in> set ds"
proof (induction ds arbitrary: d)
  case Nil
  then show ?case by simp
next
  case (Cons a ds)
  from Cons.prems have "upsert (d(dst_id a \<mapsto> a)) ds i = Some y" by simp
  from Cons.IH [OF this] have "(d(dst_id a \<mapsto> a)) i = Some y \<or> y \<in> set ds" .
  then show ?case by (auto split: if_splits)
qed

lemma map_add_twice: "(d ++ m) ++ m = d ++ m"
  by (rule ext) (simp add: map_add_def split: option.split)

lemma answer_destTable [simp]: "answer env (w\<lparr>destTable := d\<rparr>) = answer env w"
  by (simp add: answer_def)

lemma called_destTable: "called e (w\<lparr>destTable := d\<rparr>) = (called e w)\<lparr>destTable := d\<rparr>"
  by (simp add: called_def)

lemma finish_destTable:
  "finish env v (w\<lparr>destTable := d\<rparr>)
     = (finish env v w)\<lparr>finalWorld := (finalWorld (finish env v w))\<lparr>destTable := d\<rparr>\<rparr>"
  by (simp add: finish_def exitWith_def called_destTable split: reply.splits)

lemma exitWith_destTable:
  "exitWith c v (w\<lparr>destTable := d\<rparr>)
     = (exitWith c v w)\<lparr>finalWorld := (finalWorld (exitWith c v w))\<lparr>destTable := d\<rparr>\<rparr>"
  by (simp add: exitWith_def)

lemma body_overwrite_dest_Done:
  assumes "body_overwrite env src v w = Done r"
  shows "body_overwrite env src v (w\<lparr>destTable := d\<rparr>)
      = Done (r\<lparr>finalWorld := (finalWorld r)\<lparr>destTable := d\<rparr>\<rparr>)"
  using assms
  by (auto simp: body_overwrite_def Let_def called_destTable finish_destTable exitWith_destTable
      split: reply.splits if_splits sum.splits)

lemma body_overwrite_dest_Next:
  assumes "body_overwrite env src v w = Next v' w'"
  shows "\<exists>B. (\<forall>x\<in>set B. \<not> dst_opensearch_sync x)
      \<and> (\<forall>d. body_overwrite env src v (w\<lparr>destTable := d\<rparr>)
              = Next v' (w'\<lparr>destTable := upsert d B\<rparr>))"
proof (cases "answer env w")
  case Ok
  let ?rows = "fetchPage_overwrite src (lastId v)"
  from assms Ok have ne: "?rows \<noteq> []"
    by (auto simp: body_overwrite_def Let_def split: if_splits)
  from assms Ok ne obtain ds where ds: "mapE (transformRow (localOffset env)) ?rows = Inr ds"
    by (auto simp: body_overwrite_def Let_def split: sum.splits)
  have sync: "\<forall>x\<in>set ds. \<not> dst_opensearch_sync x" using ds by (rule transformed_sync)
  show ?thesis
  proof (cases "reply env (Suc (tick w))")
    case Ok2: Ok
    have "\<forall>d. body_overwrite env src v (w\<lparr>destTable := d\<rparr>)
              = Next v' (w'\<lparr>destTable := upsert d ds\<rparr>)"
      using assms Ok ne ds Ok2
      by (auto simp: body_overwrite_def Let_def called_destTable)
    with sync show ?thesis by blast
  next
    case (Err m)
    have "\<forall>d. body_overwrite env src v (w\<lparr>destTable := d\<rparr>)
              = Next v' (w'\<lparr>destTable := upsert d []\<rparr>)"
      using assms Ok ne ds Err
      by (auto simp: body_overwrite_def Let_def called_destTable)
    then show ?thesis by (intro exI [of _ "[]"]) simp
  next
    case (Throw m)
    with assms Ok ne ds show ?thesis by (simp add: body_overwrite_def Let_def)
  qed
next
  case (Err m)
  have "\<forall>d. body_overwrite env src v (w\<lparr>destTable := d\<rparr>)
              = Next v' (w'\<lparr>destTable := upsert d []\<rparr>)"
    using assms Err
    by (auto simp: body_overwrite_def Let_def called_destTable split: if_splits)
  then show ?thesis by (intro exI [of _ "[]"]) simp
next
  case (Throw m)
  with assms show ?thesis by (simp add: body_overwrite_def Let_def)
qed

lemma loop_overwrite_dest:
  assumes "runLoop (body_overwrite env src) n v w = Some r"
  shows "\<exists>W. (\<forall>i y. W i = Some y \<longrightarrow> \<not> dst_opensearch_sync y)
      \<and> (\<forall>d. runLoop (body_overwrite env src) n v (w\<lparr>destTable := d\<rparr>)
              = Some (r\<lparr>finalWorld := (finalWorld r)\<lparr>destTable := d ++ W\<rparr>\<rparr>))"
  using assms
proof (induction n arbitrary: v w)
  case 0
  then show ?case by simp
next
  case (Suc n)
  show ?case
  proof (cases "body_overwrite env src v w")
    case (Done r')
    with Suc.prems have r: "r' = r" by simp
    have "\<forall>d. runLoop (body_overwrite env src) (Suc n) v (w\<lparr>destTable := d\<rparr>)
              = Some (r\<lparr>finalWorld := (finalWorld r)\<lparr>destTable := d ++ Map.empty\<rparr>\<rparr>)"
      using body_overwrite_dest_Done [OF Done] r by simp
    then show ?thesis by (intro exI [of _ Map.empty]) simp
  next
    case (Next v' w')
    with Suc.prems have run: "runLoop (body_overwrite env src) n v' w' = Some r" by simp
    from Suc.IH [OF run] obtain W where
      W: "\<forall>i y. W i = Some y \<longrightarrow> \<not> dst_opensearch_sync y"
      and Wrun: "\<forall>d. runLoop (body_overwrite env src) n v' (w'\<lparr>destTable := d\<rparr>)
              = Some (r\<lparr>finalWorld := (finalWorld r)\<lparr>destTable := d ++ W\<rparr>\<rparr>)"
      by blast
    from body_overwrite_dest_Next [OF Next] obtain B where
      B: "\<forall>x\<in>set B. \<not> dst_opensearch_sync x"
      and Bstep: "\<forall>d. body_overwrite env src v (w\<lparr>destTable := d\<rparr>)
              = Next v' (w'\<lparr>destTable := upsert d B\<rparr>)"
      by blast
    let ?W = "upsert Map.empty B ++ W"
    have "\<forall>i y. ?W i = Some y \<longrightarrow> \<not> dst_opensearch_sync y"
      using W B upsert_Some [of Map.empty B] by (auto simp: map_add_Some_iff)
    moreover have "\<forall>d. runLoop (body_overwrite env src) (Suc n) v (w\<lparr>destTable := d\<rparr>)
              = Some (r\<lparr>finalWorld := (finalWorld r)\<lparr>destTable := d ++ ?W\<rparr>\<rparr>)"
    proof
      fix d
      have "runLoop (body_overwrite env src) (Suc n) v (w\<lparr>destTable := d\<rparr>)
          = runLoop (body_overwrite env src) n v' (w'\<lparr>destTable := upsert d B\<rparr>)"
        using Bstep by simp
      also have "\<dots> = Some (r\<lparr>finalWorld := (finalWorld r)\<lparr>destTable := upsert d B ++ W\<rparr>\<rparr>)"
        using Wrun by blast
      also have "upsert d B ++ W = d ++ ?W"
        by (subst upsert_as_override) simp
      finally show "runLoop (body_overwrite env src) (Suc n) v (w\<lparr>destTable := d\<rparr>)
              = Some (r\<lparr>finalWorld := (finalWorld r)\<lparr>destTable := d ++ ?W\<rparr>\<rparr>)" .
    qed
    ultimately show ?thesis by blast
  qed
qed

lemma mainWith_unfold:
  "mainWith body fuel env d =
     (if reply env 0 \<noteq> Ok then Some (exitWith 1 initialVars (called Count (initialWorld d)))
      else if (\<exists>m. reply env 1 = Throw m)
      then Some (exitWith 1 initialVars (called Count (called Count (initialWorld d))))
      else runLoop body fuel initialVars (called Count (called Count (initialWorld d))))"
  by (auto simp: mainWith_def Let_def answer_def initialWorld_def called_def split: reply.splits)

lemma initial_destTable:
  "called Count (called Count (initialWorld d))
     = (called Count (called Count (initialWorld d0)))\<lparr>destTable := d\<rparr>"
  by (simp add: initialWorld_def called_def)

lemma main_overwrite_dest:
  assumes "main_overwrite fuel env src d0 = Some r"
  shows "\<exists>W. (\<forall>i y. W i = Some y \<longrightarrow> \<not> dst_opensearch_sync y)
      \<and> (\<forall>d. main_overwrite fuel env src d
              = Some (r\<lparr>finalWorld := (finalWorld r)\<lparr>destTable := d ++ W\<rparr>\<rparr>))"
proof -
  let ?w = "\<lambda>d. called Count (called Count (initialWorld d))"
  consider (early1) "reply env 0 \<noteq> Ok"
    | (early2) "reply env 0 = Ok" "\<exists>m. reply env 1 = Throw m"
    | (loop) "reply env 0 = Ok" "\<not> (\<exists>m. reply env 1 = Throw m)"
    by blast
  then show ?thesis
  proof cases
    case early1
    then have m: "\<And>d. main_overwrite fuel env src d
        = Some (exitWith 1 initialVars (called Count (initialWorld d)))"
      by (simp add: main_overwrite_def mainWith_unfold)
    from assms have r: "r = exitWith 1 initialVars (called Count (initialWorld d0))"
      by (simp add: m)
    have "\<forall>d. main_overwrite fuel env src d
              = Some (r\<lparr>finalWorld := (finalWorld r)\<lparr>destTable := d ++ Map.empty\<rparr>\<rparr>)"
      by (simp add: m r exitWith_def initialWorld_def called_def)
    then show ?thesis by (intro exI [of _ Map.empty]) simp
  next
    case early2
    then have m: "\<And>d. main_overwrite fuel env src d = Some (exitWith 1 initialVars (?w d))"
      by (simp add: main_overwrite_def mainWith_unfold)
    from assms have r: "r = exitWith 1 initialVars (?w d0)"
      by (simp add: m)
    have "\<forall>d. main_overwrite fuel env src d
              = Some (r\<lparr>finalWorld := (finalWorld r)\<lparr>destTable := d ++ Map.empty\<rparr>\<rparr>)"
      by (simp add: m r exitWith_def initialWorld_def called_def)
    then show ?thesis by (intro exI [of _ Map.empty]) simp
  next
    case loop
    then have m: "\<And>d. main_overwrite fuel env src d
        = runLoop (body_overwrite env src) fuel initialVars (?w d)"
      by (simp add: main_overwrite_def mainWith_unfold)
    with assms have "runLoop (body_overwrite env src) fuel initialVars (?w d0) = Some r" by simp
    from loop_overwrite_dest [OF this] obtain W where
      W: "\<forall>i y. W i = Some y \<longrightarrow> \<not> dst_opensearch_sync y"
      and Wrun: "\<forall>d. runLoop (body_overwrite env src) fuel initialVars ((?w d0)\<lparr>destTable := d\<rparr>)
              = Some (r\<lparr>finalWorld := (finalWorld r)\<lparr>destTable := d ++ W\<rparr>\<rparr>)"
      by blast
    have "\<forall>d. main_overwrite fuel env src d
              = Some (r\<lparr>finalWorld := (finalWorld r)\<lparr>destTable := d ++ W\<rparr>\<rparr>)"
    proof
      fix d
      have "main_overwrite fuel env src d
          = runLoop (body_overwrite env src) fuel initialVars ((?w d0)\<lparr>destTable := d\<rparr>)"
        by (simp only: m initial_destTable [of d d0])
      then show "main_overwrite fuel env src d
              = Some (r\<lparr>finalWorld := (finalWorld r)\<lparr>destTable := d ++ W\<rparr>\<rparr>)"
        using Wrun by simp
    qed
    with W show ?thesis by blast
  qed
qed

lemma main_overwrite_idempotent:
  assumes "main_overwrite fuel env src d0 = Some r"
  shows "main_overwrite fuel env src (destTable (finalWorld r)) = Some r
    \<and> (\<forall>i y. destTable (finalWorld r) i = Some y \<longrightarrow> d0 i = Some y \<or> \<not> dst_opensearch_sync y)"
proof -
  from main_overwrite_dest [OF assms] obtain W where
    W: "\<forall>i y. W i = Some y \<longrightarrow> \<not> dst_opensearch_sync y"
    and Wrun: "\<forall>d. main_overwrite fuel env src d
              = Some (r\<lparr>finalWorld := (finalWorld r)\<lparr>destTable := d ++ W\<rparr>\<rparr>)"
    by blast
  from Wrun assms have "r = r\<lparr>finalWorld := (finalWorld r)\<lparr>destTable := d0 ++ W\<rparr>\<rparr>"
    by (metis option.inject)
  then have "finalWorld r = (finalWorld r)\<lparr>destTable := d0 ++ W\<rparr>"
    by (metis run_result.select_convs(3) run_result.surjective run_result.update_convs(3))
  then have d1: "destTable (finalWorld r) = d0 ++ W"
    by (metis world.select_convs(1) world.surjective world.update_convs(1))
  have "main_overwrite fuel env src (d0 ++ W)
      = Some (r\<lparr>finalWorld := (finalWorld r)\<lparr>destTable := (d0 ++ W) ++ W\<rparr>\<rparr>)"
    using Wrun by blast
  also have "\<dots> = Some r"
    using d1 by (simp add: map_add_twice)
  finally have "main_overwrite fuel env src (destTable (finalWorld r)) = Some r"
    by (simp add: d1)
  moreover have "\<forall>i y. destTable (finalWorld r) i = Some y \<longrightarrow> d0 i = Some y \<or> \<not> dst_opensearch_sync y"
    using W by (auto simp: d1 map_add_Some_iff)
  ultimately show ?thesis by blast
qed

lemma filter_length_less:
  assumes "\<And>y. Q y \<Longrightarrow> P y" and "x \<in> set xs" and "P x" and "\<not> Q x"
  shows "length (filter Q xs) < length (filter P xs)"
  using assms(2)
proof (induction xs)
  case Nil
  then show ?case by simp
next
  case (Cons a xs)
  have le: "length (filter Q xs) \<le> length (filter P xs)"
  proof (induction xs)
    case Nil
    show ?case by simp
  next
    case (Cons b xs)
    then show ?case using assms(1) by auto
  qed
  show ?case
  proof (cases "x = a")
    case True
    with assms(3,4) le show ?thesis by simp
  next
    case False
    with Cons have "length (filter Q xs) < length (filter P xs)" by simp
    then show ?thesis using assms(1) by auto
  qed
qed

lemma remaining_decreases:
  assumes "r \<in> set src" and "cursor < src_id r"
  shows "length (filter (\<lambda>x. src_id r < src_id x) src)
       < length (filter (\<lambda>x. cursor < src_id x) src)"
  using assms by (intro filter_length_less [where x = r]) auto

lemma body_overwrite_okEnv:
  "body_overwrite (okEnv tz) src v w =
     (if fetchPage_overwrite src (lastId v) = []
      then Done (finish (okEnv tz) v (called (Fetch (lastId v)) w))
      else case mapE (transformRow tz) (fetchPage_overwrite src (lastId v)) of
        Inl e \<Rightarrow> Done (exitWith 1 v (called (Fetch (lastId v)) w))
      | Inr transformed \<Rightarrow>
          Next (v\<lparr>totalUpserted := totalUpserted v + length transformed,
                  totalProcessed := totalProcessed v + length (fetchPage_overwrite src (lastId v)),
                  lastId := src_id (last (fetchPage_overwrite src (lastId v)))\<rparr>)
               ((called (Upsert transformed) (called (Fetch (lastId v)) w))
                  \<lparr>destTable := upsert (destTable w) transformed\<rparr>))"
  by (simp add: body_overwrite_def Let_def okEnv_def answer_def split: sum.splits)

lemma loop_overwrite_ends:
  assumes "length (filter (\<lambda>r. lastId v < src_id r) src) < n"
  shows "\<exists>r. runLoop (body_overwrite (okEnv tz) src) n v w = Some r"
  using assms
proof (induction n arbitrary: v w)
  case 0
  then show ?case by simp
next
  case (Suc n)
  let ?rows = "fetchPage_overwrite src (lastId v)"
  show ?case
  proof (cases "?rows = []")
    case True
    then show ?thesis by (simp add: body_overwrite_okEnv)
  next
    case ne: False
    show ?thesis
    proof (cases "mapE (transformRow tz) ?rows")
      case (Inl e)
      with ne show ?thesis by (simp add: body_overwrite_okEnv)
    next
      case (Inr transformed)
      let ?v = "v\<lparr>totalUpserted := totalUpserted v + length transformed,
                  totalProcessed := totalProcessed v + length ?rows,
                  lastId := src_id (last ?rows)\<rparr>"
      let ?w = "(called (Upsert transformed) (called (Fetch (lastId v)) w))
                  \<lparr>destTable := upsert (destTable w) transformed\<rparr>"
      have step: "body_overwrite (okEnv tz) src v w = Next ?v ?w"
        using ne Inr by (simp add: body_overwrite_okEnv)
      have "last ?rows \<in> set ?rows" using ne by simp
      then have "last ?rows \<in> set src" and "lastId v < src_id (last ?rows)"
        using fetchPage_overwrite_set by blast+
      then have "length (filter (\<lambda>x. src_id (last ?rows) < src_id x) src)
          < length (filter (\<lambda>x. lastId v < src_id x) src)"
        by (rule remaining_decreases)
      with Suc.prems have "length (filter (\<lambda>r. lastId ?v < src_id r) src) < n" by simp
      from Suc.IH [OF this] obtain r where "runLoop (body_overwrite (okEnv tz) src) n ?v ?w = Some r"
        by blast
      with step show ?thesis by simp
    qed
  qed
qed

lemma main_overwrite_ends:
  assumes "length src < fuel"
  shows "\<exists>r. main_overwrite fuel (okEnv tz) src d0 = Some r"
proof -
  have "length (filter (\<lambda>r. lastId initialVars < src_id r) src) < fuel"
    by (rule le_less_trans [OF length_filter_le assms])
  from loop_overwrite_ends [OF this]
  show ?thesis
    by (simp add: main_overwrite_def mainWith_unfold okEnv_def)
qed

lemma body_prefilter_okEnv:
  "body_prefilter (okEnv tz) src v w =
     (if fetchPage_prefilter src (lastId v) = []
      then Done (finish (okEnv tz) v (called (Fetch (lastId v)) w))
      else case mapE (transformRow tz) (fetchPage_prefilter src (lastId v)) of
        Inl e \<Rightarrow> Done (exitWith 1 v (called (Fetch (lastId v)) w))
      | Inr transformed \<Rightarrow>
          (if filter (\<lambda>record. dst_id record \<notin>
                set (filter (\<lambda>i. destTable w i \<noteq> None)
                       (map src_id (fetchPage_prefilter src (lastId v))))) transformed = []
           then Next (v\<lparr>totalProcessed :=
                         totalProcessed v + length (fetchPage_prefilter src (lastId v)),
                       lastId := src_id (last (fetchPage_prefilter src (lastId v)))\<rparr>)
                  (called (Exists (map src_id (fetchPage_prefilter src (lastId v))))
                     (called (Fetch (lastId v)) w))
           else Next (v\<lparr>totalProcessed :=
                         totalProcessed v + length (fetchPage_prefilter src (lastId v)),
                       lastId := src_id (last (fetchPage_prefilter src (lastId v))),
                       totalUpserted := totalUpserted v + length
                         (filter (\<lambda>record. dst_id record \<notin>
                            set (filter (\<lambda>i. destTable w i \<noteq> None)
                              (map src_id (fetchPage_prefilter src (lastId v))))) transformed)\<rparr>)
                  ((called (Upsert (filter (\<lambda>record. dst_id record \<notin>
                            set (filter (\<lambda>i. destTable w i \<noteq> None)
                              (map src_id (fetchPage_prefilter src (lastId v))))) transformed))
                     (called (Exists (map src_id (fetchPage_prefilter src (lastId v))))
                        (called (Fetch (lastId v)) w)))
                     \<lparr>destTable := upsert (destTable w)
                        (filter (\<lambda>record. dst_id record \<notin>
                            set (filter (\<lambda>i. destTable w i \<noteq> None)
                              (map src_id (fetchPage_prefilter src (lastId v))))) transformed)\<rparr>)))"
  by (simp add: body_prefilter_def Let_def existingOf_def upsertWithRetry_ok1 okEnv_def answer_def
      called_def split: sum.splits)


lemma new_records_ids:
  assumes "mapE (transformRow tz) rows = Inr transformed"
  shows "dst_id ` set (filter (\<lambda>record. dst_id record \<notin>
            set (filter (\<lambda>i. d i \<noteq> None) (map src_id rows))) transformed)
         = {i \<in> src_id ` set rows. d i = None}"
proof -
  have eq: "dst_id ` set transformed = src_id ` set rows"
    using transformed_ids [OF assms] by (metis set_map)
  show ?thesis
  proof (intro set_eqI iffI)
    fix i
    assume "i \<in> dst_id ` set (filter (\<lambda>record. dst_id record \<notin>
            set (filter (\<lambda>i. d i \<noteq> None) (map src_id rows))) transformed)"
    then show "i \<in> {i \<in> src_id ` set rows. d i = None}"
      using eq by auto
  next
    fix i
    assume "i \<in> {i \<in> src_id ` set rows. d i = None}"
    then have i: "i \<in> src_id ` set rows" and n: "d i = None" by auto
    from i eq have "i \<in> dst_id ` set transformed" by simp
    then obtain x where x: "x \<in> set transformed" "dst_id x = i" by auto
    with n have "x \<in> set (filter (\<lambda>record. dst_id record \<notin>
            set (filter (\<lambda>i. d i \<noteq> None) (map src_id rows))) transformed)"
      by auto
    with x(2) show "i \<in> dst_id ` set (filter (\<lambda>record. dst_id record \<notin>
            set (filter (\<lambda>i. d i \<noteq> None) (map src_id rows))) transformed)"
      by blast
  qed
qed

lemma prefilter_ok_Next:
  assumes "body_prefilter (okEnv tz) src v w = Next v' w'"
  shows "fetchPage_prefilter src (lastId v) \<noteq> []"
    and "lastId v' = src_id (last (fetchPage_prefilter src (lastId v)))"
    and "\<forall>i. destTable w i \<noteq> None \<longrightarrow> destTable w' i = destTable w i"
    and "\<forall>r\<in>set (fetchPage_prefilter src (lastId v)). destTable w' (src_id r) \<noteq> None"
proof -
  let ?rows = "fetchPage_prefilter src (lastId v)"
  show ne: "?rows \<noteq> []"
    using assms by (auto simp: body_prefilter_okEnv split: if_splits)
  from assms ne obtain transformed where t: "mapE (transformRow tz) ?rows = Inr transformed"
    by (auto simp: body_prefilter_okEnv split: sum.splits)
  let ?new = "filter (\<lambda>record. dst_id record \<notin>
            set (filter (\<lambda>i. destTable w i \<noteq> None) (map src_id ?rows))) transformed"
  have ids: "dst_id ` set ?new = {i \<in> src_id ` set ?rows. destTable w i = None}"
    using t by (rule new_records_ids)
  have sync: "\<forall>x\<in>set ?new. True" by simp
  show "lastId v' = src_id (last ?rows)"
    using assms ne t by (auto simp: body_prefilter_okEnv split: if_splits)
  have dest: "destTable w' = upsert (destTable w) ?new"
    using assms ne t by (auto simp: body_prefilter_okEnv split: if_splits)
  show "\<forall>i. destTable w i \<noteq> None \<longrightarrow> destTable w' i = destTable w i"
  proof (intro allI impI)
    fix i assume "destTable w i \<noteq> None"
    then have "i \<notin> dst_id ` set ?new" unfolding ids by simp
    then show "destTable w' i = destTable w i"
      by (simp add: dest upsert_other)
  qed
  show "\<forall>r\<in>set ?rows. destTable w' (src_id r) \<noteq> None"
  proof
    fix r assume r: "r \<in> set ?rows"
    show "destTable w' (src_id r) \<noteq> None"
    proof (cases "destTable w (src_id r) = None")
      case True
      with r have "src_id r \<in> dst_id ` set ?new" unfolding ids by blast
      with upsert_hit [OF sync this, of "destTable w"] show ?thesis
        by (auto simp: dest)
    next
      case False
      then have "src_id r \<notin> dst_id ` set ?new" unfolding ids by simp
      with False show ?thesis by (simp add: dest upsert_other)
    qed
  qed
qed

lemma prefilter_ok_Done:
  assumes "body_prefilter (okEnv tz) src v w = Done r"
  shows "destTable (finalWorld r) = destTable w"
    and "filter isUpsert (trace (finalWorld r)) = filter isUpsert (trace w)"
  using assms
  by (auto simp: body_prefilter_okEnv split: if_splits sum.splits)

lemma prefilter_ok_all_exist:
  assumes "\<forall>r\<in>set (fetchPage_prefilter src (lastId v)). destTable w (src_id r) \<noteq> None"
    and "body_prefilter (okEnv tz) src v1 w1 = Next v1' w1'" and "lastId v1 = lastId v"
  shows "\<exists>v' w'. body_prefilter (okEnv tz) src v w = Next v' w'
      \<and> lastId v' = lastId v1' \<and> destTable w' = destTable w
      \<and> filter isUpsert (trace w') = filter isUpsert (trace w)"
proof -
  let ?rows = "fetchPage_prefilter src (lastId v)"
  have ne: "?rows \<noteq> []"
    using prefilter_ok_Next(1) [OF assms(2)] assms(3) by simp
  from assms(2,3) ne obtain transformed where t: "mapE (transformRow tz) ?rows = Inr transformed"
    by (auto simp: body_prefilter_okEnv split: sum.splits)
  let ?new = "filter (\<lambda>record. dst_id record \<notin>
            set (filter (\<lambda>i. destTable w i \<noteq> None) (map src_id ?rows))) transformed"
  have "dst_id ` set ?new = {i \<in> src_id ` set ?rows. destTable w i = None}"
    using t by (rule new_records_ids)
  also have "\<dots> = {}" using assms(1) by auto
  finally have new: "?new = []" by simp
  have l: "lastId v1' = src_id (last ?rows)"
    using prefilter_ok_Next(2) [OF assms(2)] assms(3) by simp
  show ?thesis
    using ne t new l by (simp add: body_prefilter_okEnv)
qed

lemma prefilter_ok_Done_same:
  assumes "body_prefilter (okEnv tz) src v1 w1 = Done r1" and "lastId v1 = lastId v"
  shows "\<exists>r. body_prefilter (okEnv tz) src v w = Done r"
  using assms
  by (auto simp: body_prefilter_okEnv split: if_splits sum.splits)

lemma loop_prefilter_keeps:
  assumes "runLoop (body_prefilter (okEnv tz) src) n v w = Some r"
  shows "\<forall>i. destTable w i \<noteq> None \<longrightarrow> destTable (finalWorld r) i = destTable w i"
  using assms
proof (induction n arbitrary: v w)
  case 0
  then show ?case by simp
next
  case (Suc n)
  show ?case
  proof (cases "body_prefilter (okEnv tz) src v w")
    case (Done r')
    with Suc.prems have "r' = r" by simp
    with prefilter_ok_Done(1) [OF Done] show ?thesis by simp
  next
    case (Next v' w')
    with Suc.prems have "runLoop (body_prefilter (okEnv tz) src) n v' w' = Some r" by simp
    from Suc.IH [OF this] prefilter_ok_Next(3) [OF Next] show ?thesis by auto
  qed
qed

lemma loop_prefilter_second_run:
  assumes "runLoop (body_prefilter (okEnv tz) src) n v1 w1 = Some r1"
    and "lastId v2 = lastId v1"
    and "\<forall>i. destTable (finalWorld r1) i \<noteq> None \<longrightarrow> destTable w2 i \<noteq> None"
  shows "\<exists>r2. runLoop (body_prefilter (okEnv tz) src) n v2 w2 = Some r2
      \<and> destTable (finalWorld r2) = destTable w2
      \<and> filter isUpsert (trace (finalWorld r2)) = filter isUpsert (trace w2)"
  using assms
proof (induction n arbitrary: v1 w1 v2 w2)
  case 0
  then show ?case by simp
next
  case (Suc n)
  show ?case
  proof (cases "body_prefilter (okEnv tz) src v1 w1")
    case (Done r)
    from prefilter_ok_Done_same [OF Done, of v2 w2] Suc.prems(2)
    obtain r2 where d2: "body_prefilter (okEnv tz) src v2 w2 = Done r2" by auto
    with prefilter_ok_Done [OF d2] show ?thesis by simp
  next
    case (Next v1' w1')
    with Suc.prems(1) have run: "runLoop (body_prefilter (okEnv tz) src) n v1' w1' = Some r1"
      by simp
    have "\<forall>r\<in>set (fetchPage_prefilter src (lastId v1)). destTable w1' (src_id r) \<noteq> None"
      by (rule prefilter_ok_Next(4) [OF Next])
    then have "\<forall>r\<in>set (fetchPage_prefilter src (lastId v1)).
        destTable (finalWorld r1) (src_id r) \<noteq> None"
      using loop_prefilter_keeps [OF run] by auto
    then have all: "\<forall>r\<in>set (fetchPage_prefilter src (lastId v2)). destTable w2 (src_id r) \<noteq> None"
      using Suc.prems(2,3) by simp
    from prefilter_ok_all_exist [OF all Next] Suc.prems(2)
    obtain v2' w2' where step2: "body_prefilter (okEnv tz) src v2 w2 = Next v2' w2'"
      and l: "lastId v2' = lastId v1'" and d: "destTable w2' = destTable w2"
      and u: "filter isUpsert (trace w2') = filter isUpsert (trace w2)"
      by auto
    have "\<forall>i. destTable (finalWorld r1) i \<noteq> None \<longrightarrow> destTable w2' i \<noteq> None"
      using Suc.prems(3) d by simp
    from Suc.IH [OF run l this] step2 d u show ?thesis by simp
  qed
qed

lemma fetchPage_prefilter_positive:
  assumes "\<forall>r\<in>set src. 0 < src_id r" and "0 \<le> cursor"
  shows "fetchPage_prefilter src cursor = fetchPage_overwrite src cursor"
proof (cases "0 < cursor")
  case True
  then show ?thesis by (rule fetchPage_same_filter)
next
  case False
  with assms(2) have "cursor = 0" by simp
  with assms(1) show ?thesis using first_pages_agree_iff [of src] by metis
qed

lemma loop_prefilter_ends:
  assumes "\<forall>r\<in>set src. 0 < src_id r" and "0 \<le> lastId v"
    and "length (filter (\<lambda>r. lastId v < src_id r) src) < n"
  shows "\<exists>r. runLoop (body_prefilter (okEnv tz) src) n v w = Some r"
  using assms(2,3)
proof (induction n arbitrary: v w)
  case 0
  then show ?case by simp
next
  case (Suc n)
  show ?case
  proof (cases "body_prefilter (okEnv tz) src v w")
    case (Done r)
    then show ?thesis by simp
  next
    case (Next v' w')
    let ?rows = "fetchPage_prefilter src (lastId v)"
    have rows: "?rows = fetchPage_overwrite src (lastId v)"
      using assms(1) Suc.prems(1) by (rule fetchPage_prefilter_positive)
    have ne: "?rows \<noteq> []" and l: "lastId v' = src_id (last ?rows)"
      using prefilter_ok_Next(1,2) [OF Next] by simp_all
    have "last ?rows \<in> set ?rows" using ne by simp
    then have m: "last ?rows \<in> set src" and lt: "lastId v < src_id (last ?rows)"
      using fetchPage_overwrite_set rows by metis+
    from m lt have "length (filter (\<lambda>x. src_id (last ?rows) < src_id x) src)
          < length (filter (\<lambda>x. lastId v < src_id x) src)"
      by (rule remaining_decreases)
    with Suc.prems(2) l have "length (filter (\<lambda>r. lastId v' < src_id r) src) < n" by simp
    moreover have "0 \<le> lastId v'" using l lt Suc.prems(1) by simp
    ultimately obtain r where "runLoop (body_prefilter (okEnv tz) src) n v' w' = Some r"
      using Suc.IH by blast
    with Next show ?thesis by simp
  qed
qed

lemma main_prefilter_okEnv:
  "main_prefilter fuel (okEnv tz) src d
     = runLoop (body_prefilter (okEnv tz) src) fuel initialVars
         (called Count (called Count (initialWorld d)))"
  by (simp add: main_prefilter_def mainWith_unfold okEnv_def)

lemma main_prefilter_ends:
  assumes "length src < fuel" and "\<forall>r\<in>set src. 0 < src_id r"
  shows "\<exists>r. main_prefilter fuel (okEnv tz) src d0 = Some r"
proof -
  have "length (filter (\<lambda>r. lastId initialVars < src_id r) src) < fuel"
    by (rule le_less_trans [OF length_filter_le assms(1)])
  moreover have "0 \<le> lastId initialVars" by (simp add: initialVars_def)
  ultimately show ?thesis
    unfolding main_prefilter_okEnv using assms(2) by (intro loop_prefilter_ends)
qed

lemma main_prefilter_second_run:
  assumes "main_prefilter fuel (okEnv tz) src d0 = Some p1"
  shows "\<exists>p2. main_prefilter fuel (okEnv tz) src (destTable (finalWorld p1)) = Some p2
      \<and> destTable (finalWorld p2) = destTable (finalWorld p1)
      \<and> filter isUpsert (trace (finalWorld p2)) = []"
proof -
  let ?w1 = "called Count (called Count (initialWorld d0))"
  let ?w2 = "called Count (called Count (initialWorld (destTable (finalWorld p1))))"
  from assms have run: "runLoop (body_prefilter (okEnv tz) src) fuel initialVars ?w1 = Some p1"
    by (simp add: main_prefilter_okEnv)
  have "\<forall>i. destTable (finalWorld p1) i \<noteq> None \<longrightarrow> destTable ?w2 i \<noteq> None"
    by (simp add: initialWorld_def)
  from loop_prefilter_second_run [OF run refl this]
  obtain p2 where "runLoop (body_prefilter (okEnv tz) src) fuel initialVars ?w2 = Some p2"
    and "destTable (finalWorld p2) = destTable ?w2"
    and "filter isUpsert (trace (finalWorld p2)) = filter isUpsert (trace ?w2)"
    by blast
  then show ?thesis
    by (simp add: main_prefilter_okEnv initialWorld_def)
qed

lemma loop_prefilter_never_ends:
  assumes "lastId v \<le> 0"
  shows "runLoop (body_prefilter (okEnv tz) [blankRow 0]) n v w = None"
  using assms
proof (induction n arbitrary: v w)
  case 0
  show ?case by simp
next
  case (Suc n)
  have page: "fetchPage_prefilter [blankRow 0] (lastId v) = [blankRow 0]"
    using Suc.prems by (simp add: fetchPage_prefilter_def BATCH_SIZE_def)
  obtain v' w' where step: "body_prefilter (okEnv tz) [blankRow 0] v w = Next v' w'"
    and l: "lastId v' = 0"
    by (cases "destTable w 0 = None")
       (simp_all add: body_prefilter_okEnv page transformRow_blankRow)
  from l have "runLoop (body_prefilter (okEnv tz) [blankRow 0]) n v' w' = None"
    by (intro Suc.IH) simp
  with step show ?case by simp
qed

lemma main_prefilter_never_ends: "main_prefilter fuel (okEnv tz) [blankRow 0] d0 = None"
  unfolding main_prefilter_okEnv by (rule loop_prefilter_never_ends) (simp add: initialVars_def)

lemma run_prefilter_first:
  "main_prefilter 2 (okEnv 0) [blankRow 1] Map.empty =
     Some \<lparr>exitCode = 0,
           finalVars = \<lparr>lastId = 1, totalProcessed = 1, totalUpserted = 1, totalErrors = 0\<rparr>,
           finalWorld = \<lparr>destTable = [1 \<mapsto> blankDest 1], tick = 7,
             trace = [Count, Count, Fetch 0, Exists [1], Upsert [blankDest 1], Fetch 1, Count]\<rparr>\<rparr>"
  by (simp add: main_prefilter_okEnv numeral_2_eq_2 body_prefilter_okEnv prefilter_page1
      prefilter_page2 transformRow_blankRow initialVars_def initialWorld_def called_def finish_def
      exitWith_def)

lemma run_prefilter_second:
  "main_prefilter 2 (okEnv 0) [blankRow 1] [1 \<mapsto> blankDest 1] =
     Some \<lparr>exitCode = 0,
           finalVars = \<lparr>lastId = 1, totalProcessed = 1, totalUpserted = 0, totalErrors = 0\<rparr>,
           finalWorld = \<lparr>destTable = [1 \<mapsto> blankDest 1], tick = 6,
             trace = [Count, Count, Fetch 0, Exists [1], Fetch 1, Count]\<rparr>\<rparr>"
  by (simp add: main_prefilter_okEnv numeral_2_eq_2 body_prefilter_okEnv prefilter_page1
      prefilter_page2 transformRow_blankRow initialVars_def initialWorld_def called_def finish_def
      exitWith_def)

lemma main_overwrite_okEnv:
  "main_overwrite fuel (okEnv tz) src d
     = runLoop (body_overwrite (okEnv tz) src) fuel initialVars
         (called Count (called Count (initialWorld d)))"
  by (simp add: main_overwrite_def mainWith_unfold okEnv_def)

lemma run_overwrite_first:
  "main_overwrite 2 (okEnv 0) [blankRow 1] Map.empty =
     Some \<lparr>exitCode = 0,
           finalVars = \<lparr>lastId = 1, totalProcessed = 1, totalUpserted = 1, totalErrors = 0\<rparr>,
           finalWorld = \<lparr>destTable = [1 \<mapsto> blankDest 1], tick = 6,
             trace = [Count, Count, Fetch 0, Upsert [blankDest 1], Fetch 1, Count]\<rparr>\<rparr>"
  by (simp add: main_overwrite_okEnv numeral_2_eq_2 body_overwrite_okEnv
      fetchPage_overwrite_def BATCH_SIZE_def transformRow_blankRow initialVars_def initialWorld_def
      called_def finish_def exitWith_def)

lemma upsertWithRetry_destTable:
  "destTable (snd (upsertWithRetry env data MAX_RETRIES w)) = destTable w
   \<or> destTable (snd (upsertWithRetry env data MAX_RETRIES w)) = upsert (destTable w) data"
proof (cases "reply env (tick w) = Ok")
  case True
  then show ?thesis by (simp add: upsertWithRetry_ok1)
next
  case f1: False
  show ?thesis
  proof (cases "reply env (tick w + 1) = Ok")
    case True
    with f1 show ?thesis by (simp add: upsertWithRetry_ok2)
  next
    case f2: False
    show ?thesis
    proof (cases "reply env (tick w + 2) = Ok")
      case True
      with f1 f2 show ?thesis by (simp add: upsertWithRetry_ok3)
    next
      case False
      with f1 f2 show ?thesis by (simp add: upsertWithRetry_fail)
    qed
  qed
qed

text \<open>
  When the existence query succeeds, a round of \<^verbatim>\<open>part_000\<close> leaves every row that the
  destination held before the round as it was, however the write goes.
\<close>

lemma prefilter_keeps_existing_rows:
  assumes "body_prefilter env src v w = Next v' w'" and "reply env (Suc (tick w)) = Ok"
    and "destTable w i \<noteq> None"
  shows "destTable w' i = destTable w i"
proof (cases "answer env w")
  case Ok
  let ?rows = "fetchPage_prefilter src (lastId v)"
  from assms(1) Ok have ne: "?rows \<noteq> []"
    by (auto simp: body_prefilter_def Let_def split: if_splits)
  from assms(1) Ok ne obtain transformed where
    t: "mapE (transformRow (localOffset env)) ?rows = Inr transformed"
    by (auto simp: body_prefilter_def Let_def split: sum.splits)
  let ?new = "filter (\<lambda>record. dst_id record \<notin>
            set (filter (\<lambda>i. destTable w i \<noteq> None) (map src_id ?rows))) transformed"
  let ?w2 = "called (Exists (map src_id ?rows)) (called (Fetch (lastId v)) w)"
  have "dst_id ` set ?new = {i \<in> src_id ` set ?rows. destTable w i = None}"
    using t by (rule new_records_ids)
  with assms(3) have notin: "i \<notin> dst_id ` set ?new" by simp
  have "destTable w' = destTable w \<or> destTable w' = upsert (destTable w) ?new"
  proof (cases "?new = []")
    case True
    with assms(1,2) Ok ne t show ?thesis
      by (auto simp: body_prefilter_def Let_def existingOf_def)
  next
    case False
    have "w' = snd (upsertWithRetry env ?new MAX_RETRIES ?w2)"
      using assms(1,2) Ok ne t False
      by (auto simp: body_prefilter_def Let_def existingOf_def
          split: prod.splits option.splits if_splits)
    with upsertWithRetry_destTable [of env ?new ?w2] show ?thesis by simp
  qed
  with notin show ?thesis by (auto simp: upsert_other)
next
  case (Err m)
  with assms(1) show ?thesis
    by (auto simp: body_prefilter_def Let_def split: if_splits)
next
  case (Throw m)
  with assms(1) show ?thesis by (simp add: body_prefilter_def Let_def)
qed

lemma loop_overwrite_covers:
  assumes typed: "\<forall>r\<in>set src. \<exists>d. transformRow tz r = Inr d"
    and run: "runLoop (body_overwrite (okEnv tz) src) n v w = Some res"
  shows "exitCode res = (if 0 < totalErrors v then 1 else 0)
    \<and> (\<forall>r\<in>set src. lastId v < src_id r \<longrightarrow>
         (\<exists>y. destTable (finalWorld res) (src_id r) = Some y \<and> \<not> dst_opensearch_sync y
            \<and> (\<exists>r'\<in>set src. src_id r' = src_id r \<and> transformRow tz r' = Inr y)))
    \<and> (\<forall>i. i \<notin> src_id ` {r \<in> set src. lastId v < src_id r} \<longrightarrow>
         destTable (finalWorld res) i = destTable w i)"
  using run
proof (induction n arbitrary: v w)
  case 0
  then show ?case by simp
next
  case (Suc n)
  let ?rows = "fetchPage_overwrite src (lastId v)"
  show ?case
  proof (cases "?rows = []")
    case True
    with Suc.prems have res: "res = finish (okEnv tz) v (called (Fetch (lastId v)) w)"
      by (simp add: body_overwrite_okEnv)
    have "\<forall>r\<in>set src. \<not> lastId v < src_id r" using True page_empty by blast
    then show ?thesis by (simp add: res finish_def okEnv_def)
  next
    case ne: False
    have sub: "set ?rows \<subseteq> set src" using fetchPage_overwrite_set by blast
    with typed have "\<forall>r\<in>set ?rows. \<exists>d. transformRow tz r = Inr d" by blast
    then obtain ds where ds: "mapE (transformRow tz) ?rows = Inr ds"
      using mapE_total by blast
    let ?v = "v\<lparr>totalUpserted := totalUpserted v + length ds,
                totalProcessed := totalProcessed v + length ?rows,
                lastId := src_id (last ?rows)\<rparr>"
    let ?w = "(called (Upsert ds) (called (Fetch (lastId v)) w))
                \<lparr>destTable := upsert (destTable w) ds\<rparr>"
    have step: "body_overwrite (okEnv tz) src v w = Next ?v ?w"
      using ne ds by (simp add: body_overwrite_okEnv)
    with Suc.prems have rest: "runLoop (body_overwrite (okEnv tz) src) n ?v ?w = Some res" by simp
    note IH = Suc.IH [OF rest]
    have lt: "lastId v < src_id (last ?rows)" using ne by (rule last_in_page)
    have ids: "dst_id ` set ds = src_id ` set ?rows"
      using transformed_ids [OF ds] by (metis set_map)
    have c1: "exitCode res = (if 0 < totalErrors v then 1 else 0)" using IH by simp
    have c2: "\<forall>r\<in>set src. lastId v < src_id r \<longrightarrow>
         (\<exists>y. destTable (finalWorld res) (src_id r) = Some y \<and> \<not> dst_opensearch_sync y
            \<and> (\<exists>r'\<in>set src. src_id r' = src_id r \<and> transformRow tz r' = Inr y))"
    proof (intro ballI impI)
      fix r assume r: "r \<in> set src" and gt: "lastId v < src_id r"
      show "\<exists>y. destTable (finalWorld res) (src_id r) = Some y \<and> \<not> dst_opensearch_sync y
            \<and> (\<exists>r'\<in>set src. src_id r' = src_id r \<and> transformRow tz r' = Inr y)"
      proof (cases "src_id r \<le> src_id (last ?rows)")
        case True
        with r gt ne have "src_id r \<in> src_id ` set ?rows" by (intro page_covers)
        then have "src_id r \<in> dst_id ` set ds" by (simp add: ids)
        with upsert_hit [of ds "\<lambda>y. y \<in> set ds" "src_id r" "destTable w"]
        obtain y where y: "upsert (destTable w) ds (src_id r) = Some y" "y \<in> set ds"
          "dst_id y = src_id r" by auto
        from mapE_member [OF ds y(2)] obtain r' where r': "r' \<in> set ?rows"
          "transformRow tz r' = Inr y" by blast
        have "src_id r' = src_id r" using transformRow_id [OF r'(2)] y(3) by simp
        moreover have "r' \<in> set src" using r'(1) sub by blast
        moreover have "\<not> dst_opensearch_sync y" using r'(2) by (rule transformRow_sync)
        moreover have "destTable (finalWorld res) (src_id r) = destTable ?w (src_id r)"
          by (rule loop_overwrite_keeps [OF rest]) (simp add: True)
        ultimately show ?thesis using y(1) r'(2) by auto
      next
        case False
        then have "lastId ?v < src_id r" by simp
        with IH r show ?thesis by blast
      qed
    qed
    have c3: "\<forall>i. i \<notin> src_id ` {r \<in> set src. lastId v < src_id r} \<longrightarrow>
         destTable (finalWorld res) i = destTable w i"
    proof (intro allI impI)
      fix i assume i: "i \<notin> src_id ` {r \<in> set src. lastId v < src_id r}"
      have "set ?rows \<subseteq> {r \<in> set src. lastId v < src_id r}"
        using fetchPage_overwrite_set by blast
      with i have "i \<notin> src_id ` set ?rows" by blast
      then have a: "destTable ?w i = destTable w i" by (simp add: ids upsert_other)
      have "{r \<in> set src. lastId ?v < src_id r} \<subseteq> {r \<in> set src. lastId v < src_id r}"
        using lt by auto
      with i have "i \<notin> src_id ` {r \<in> set src. lastId ?v < src_id r}" by blast
      with IH have "destTable (finalWorld res) i = destTable ?w i" by blast
      with a show "destTable (finalWorld res) i = destTable w i" by simp
    qed
    from c1 c2 c3 show ?thesis by blast
  qed
qed


lemma prefilter_ok_Next_new:
  assumes "body_prefilter (okEnv tz) src v w = Next v' w'"
  shows "\<forall>i y. destTable w' i = Some y \<longrightarrow>
           destTable w i = Some y
         \<or> (destTable w i = None \<and> \<not> dst_opensearch_sync y
              \<and> (\<exists>r'\<in>set (fetchPage_prefilter src (lastId v)).
                    src_id r' = i \<and> transformRow tz r' = Inr y))"
    and "totalErrors v' = totalErrors v"
proof -
  let ?rows = "fetchPage_prefilter src (lastId v)"
  have ne: "?rows \<noteq> []"
    using assms by (auto simp: body_prefilter_okEnv split: if_splits)
  from assms ne obtain transformed where t: "mapE (transformRow tz) ?rows = Inr transformed"
    by (auto simp: body_prefilter_okEnv split: sum.splits)
  let ?new = "filter (\<lambda>record. dst_id record \<notin>
            set (filter (\<lambda>i. destTable w i \<noteq> None) (map src_id ?rows))) transformed"
  have ids: "dst_id ` set ?new = {i \<in> src_id ` set ?rows. destTable w i = None}"
    using t by (rule new_records_ids)
  have dest: "destTable w' = upsert (destTable w) ?new"
    using assms ne t by (auto simp: body_prefilter_okEnv split: if_splits)
  show "totalErrors v' = totalErrors v"
    using assms ne t by (auto simp: body_prefilter_okEnv split: if_splits)
  show "\<forall>i y. destTable w' i = Some y \<longrightarrow>
           destTable w i = Some y
         \<or> (destTable w i = None \<and> \<not> dst_opensearch_sync y
              \<and> (\<exists>r'\<in>set ?rows. src_id r' = i \<and> transformRow tz r' = Inr y))"
  proof (intro allI impI)
    fix i y assume "destTable w' i = Some y"
    then have "upsert (destTable w) ?new i = Some y" by (simp add: dest)
    then consider "destTable w i = Some y" | "y \<in> set ?new" "dst_id y = i"
      using upsert_Some_id by blast
    then show "destTable w i = Some y
         \<or> (destTable w i = None \<and> \<not> dst_opensearch_sync y
              \<and> (\<exists>r'\<in>set ?rows. src_id r' = i \<and> transformRow tz r' = Inr y))"
    proof cases
      case 1
      then show ?thesis by simp
    next
      case 2
      then have "i \<in> dst_id ` set ?new" by blast
      then have none: "destTable w i = None" unfolding ids by simp
      from 2(1) have "y \<in> set transformed" by simp
      from mapE_member [OF t this] obtain r' where r': "r' \<in> set ?rows"
        "transformRow tz r' = Inr y" by blast
      have "src_id r' = i" using transformRow_id [OF r'(2)] 2(2) by simp
      moreover have "\<not> dst_opensearch_sync y" using r'(2) by (rule transformRow_sync)
      ultimately show ?thesis using none r' by blast
    qed
  qed
qed

lemma loop_prefilter_covers:
  assumes pos: "\<forall>r\<in>set src. 0 < src_id r"
    and typed: "\<forall>r\<in>set src. \<exists>d. transformRow tz r = Inr d"
    and run: "runLoop (body_prefilter (okEnv tz) src) n v w = Some res"
    and start: "0 \<le> lastId v"
  shows "exitCode res = (if 0 < totalErrors v then 1 else 0)
    \<and> (\<forall>r\<in>set src. lastId v < src_id r \<longrightarrow> destTable (finalWorld res) (src_id r) \<noteq> None)
    \<and> (\<forall>i y. destTable (finalWorld res) i = Some y \<longrightarrow>
           destTable w i = Some y
         \<or> (destTable w i = None \<and> \<not> dst_opensearch_sync y
              \<and> (\<exists>r'\<in>set src. src_id r' = i \<and> transformRow tz r' = Inr y)))"
  using run start
proof (induction n arbitrary: v w)
  case 0
  then show ?case by simp
next
  case (Suc n)
  let ?rows = "fetchPage_prefilter src (lastId v)"
  have rows: "?rows = fetchPage_overwrite src (lastId v)"
    using pos Suc.prems(2) by (rule fetchPage_prefilter_positive)
  have sub: "set ?rows \<subseteq> set src" using fetchPage_overwrite_set rows by auto
  show ?case
  proof (cases "body_prefilter (okEnv tz) src v w")
    case (Done r')
    with Suc.prems(1) have r': "r' = res" by simp
    from sub typed have "\<forall>r\<in>set ?rows. \<exists>d. transformRow tz r = Inr d" by blast
    then obtain ds where "mapE (transformRow tz) ?rows = Inr ds"
      using mapE_total by blast
    with Done r' have empty: "?rows = []" and res: "res = finish (okEnv tz) v (called (Fetch (lastId v)) w)"
      by (auto simp: body_prefilter_okEnv split: if_splits)
    have "\<forall>r\<in>set src. \<not> lastId v < src_id r"
      using empty rows page_empty by metis
    then show ?thesis by (simp add: res finish_def okEnv_def)
  next
    case (Next v' w')
    with Suc.prems(1) have rest: "runLoop (body_prefilter (okEnv tz) src) n v' w' = Some res"
      by simp
    note N = prefilter_ok_Next [OF Next]
    note M = prefilter_ok_Next_new [OF Next]
    have ne: "fetchPage_overwrite src (lastId v) \<noteq> []" using N(1) rows by simp
    have l: "lastId v' = src_id (last (fetchPage_overwrite src (lastId v)))"
      using N(2) rows by simp
    have lt: "lastId v < lastId v'" using last_in_page [OF ne] l by simp
    then have "0 \<le> lastId v'" using Suc.prems(2) by simp
    note IH = Suc.IH [OF rest this]
    have c1: "exitCode res = (if 0 < totalErrors v then 1 else 0)"
      using IH M(2) by simp
    have c2: "\<forall>r\<in>set src. lastId v < src_id r \<longrightarrow> destTable (finalWorld res) (src_id r) \<noteq> None"
    proof (intro ballI impI)
      fix r assume r: "r \<in> set src" and gt: "lastId v < src_id r"
      show "destTable (finalWorld res) (src_id r) \<noteq> None"
      proof (cases "src_id r \<le> lastId v'")
        case True
        then have "src_id r \<le> src_id (last (fetchPage_overwrite src (lastId v)))"
          by (simp add: l)
        with r gt ne have "src_id r \<in> src_id ` set (fetchPage_overwrite src (lastId v))"
          by (intro page_covers)
        then obtain x where "x \<in> set ?rows" "src_id x = src_id r" using rows by auto
        with N(4) have "destTable w' (src_id r) \<noteq> None" by metis
        with loop_prefilter_keeps [OF rest] show ?thesis by simp
      next
        case False
        then have "lastId v' < src_id r" by simp
        with IH r show ?thesis by blast
      qed
    qed
    have c3: "\<forall>i y. destTable (finalWorld res) i = Some y \<longrightarrow>
           destTable w i = Some y
         \<or> (destTable w i = None \<and> \<not> dst_opensearch_sync y
              \<and> (\<exists>r'\<in>set src. src_id r' = i \<and> transformRow tz r' = Inr y))"
    proof (intro allI impI)
      fix i y assume fin: "destTable (finalWorld res) i = Some y"
      note IH3 = IH [THEN conjunct2, THEN conjunct2, rule_format, OF fin]
      then consider (kept) "destTable w' i = Some y"
        | (new) "destTable w' i = None" "\<not> dst_opensearch_sync y"
            "\<exists>r'\<in>set src. src_id r' = i \<and> transformRow tz r' = Inr y"
        by auto
      then show "destTable w i = Some y
         \<or> (destTable w i = None \<and> \<not> dst_opensearch_sync y
              \<and> (\<exists>r'\<in>set src. src_id r' = i \<and> transformRow tz r' = Inr y))"
      proof cases
        case kept
        with M(1) sub show ?thesis by blast
      next
        case new
        have "destTable w i = None"
        proof (rule ccontr)
          assume "destTable w i \<noteq> None"
          with N(3) have "destTable w' i = destTable w i" by blast
          with new(1) \<open>destTable w i \<noteq> None\<close> show False by simp
        qed
        with new show ?thesis by blast
      qed
    qed
    from c1 c2 c3 show ?thesis by blast
  qed
qed


lemma main_overwrite_covers:
  assumes typed: "\<forall>r\<in>set src. \<exists>d. transformRow tz r = Inr d"
    and run: "main_overwrite fuel (okEnv tz) src d0 = Some res"
  shows "exitCode res = 0"
    and "\<forall>r\<in>set src. 0 < src_id r \<longrightarrow>
         (\<exists>y. destTable (finalWorld res) (src_id r) = Some y \<and> \<not> dst_opensearch_sync y
            \<and> (\<exists>r'\<in>set src. src_id r' = src_id r \<and> transformRow tz r' = Inr y))"
    and "\<forall>i. i \<notin> src_id ` {r \<in> set src. 0 < src_id r} \<longrightarrow> destTable (finalWorld res) i = d0 i"
  using loop_overwrite_covers [OF typed run [unfolded main_overwrite_okEnv]]
  by (simp_all add: initialVars_def initialWorld_def)

lemma main_prefilter_covers:
  assumes pos: "\<forall>r\<in>set src. 0 < src_id r"
    and typed: "\<forall>r\<in>set src. \<exists>d. transformRow tz r = Inr d"
    and run: "main_prefilter fuel (okEnv tz) src d0 = Some res"
  shows "exitCode res = 0"
    and "\<forall>r\<in>set src. \<exists>y. destTable (finalWorld res) (src_id r) = Some y
           \<and> (d0 (src_id r) = Some y
              \<or> d0 (src_id r) = None \<and> \<not> dst_opensearch_sync y
                  \<and> (\<exists>r'\<in>set src. src_id r' = src_id r \<and> transformRow tz r' = Inr y))"
    and "\<forall>i. i \<notin> src_id ` set src \<longrightarrow> destTable (finalWorld res) i = d0 i"
proof -
  let ?w = "called Count (called Count (initialWorld d0))"
  from run have loop: "runLoop (body_prefilter (okEnv tz) src) fuel initialVars ?w = Some res"
    by (simp add: main_prefilter_okEnv)
  have "0 \<le> lastId initialVars" by (simp add: initialVars_def)
  note C = loop_prefilter_covers [OF pos typed loop this]
  from C show "exitCode res = 0" by (simp add: initialVars_def)
  have present: "\<forall>r\<in>set src. destTable (finalWorld res) (src_id r) \<noteq> None"
    using C pos by (simp add: initialVars_def)
  have content: "\<forall>i y. destTable (finalWorld res) i = Some y \<longrightarrow>
           d0 i = Some y
         \<or> (d0 i = None \<and> \<not> dst_opensearch_sync y
              \<and> (\<exists>r'\<in>set src. src_id r' = i \<and> transformRow tz r' = Inr y))"
    using C by (simp add: initialWorld_def)
  show "\<forall>r\<in>set src. \<exists>y. destTable (finalWorld res) (src_id r) = Some y
           \<and> (d0 (src_id r) = Some y
              \<or> d0 (src_id r) = None \<and> \<not> dst_opensearch_sync y
                  \<and> (\<exists>r'\<in>set src. src_id r' = src_id r \<and> transformRow tz r' = Inr y))"
  proof
    fix r assume "r \<in> set src"
    with present obtain y where y: "destTable (finalWorld res) (src_id r) = Some y" by auto
    from content [rule_format, OF y] y
    show "\<exists>y. destTable (finalWorld res) (src_id r) = Some y
           \<and> (d0 (src_id r) = Some y
              \<or> d0 (src_id r) = None \<and> \<not> dst_opensearch_sync y
                  \<and> (\<exists>r'\<in>set src. src_id r' = src_id r \<and> transformRow tz r' = Inr y))"
      by auto
  qed
  show "\<forall>i. i \<notin> src_id ` set src \<longrightarrow> destTable (finalWorld res) i = d0 i"
  proof (intro allI impI)
    fix i assume i: "i \<notin> src_id ` set src"
    show "destTable (finalWorld res) i = d0 i"
    proof (cases "destTable (finalWorld res) i")
      case None
      have "d0 i = None"
      proof (rule ccontr)
        assume "d0 i \<noteq> None"
        then have "destTable ?w i \<noteq> None" by (simp add: initialWorld_def)
        with loop_prefilter_keeps [OF loop] have "destTable (finalWorld res) i = destTable ?w i"
          by blast
        with None \<open>d0 i \<noteq> None\<close> show False by (simp add: initialWorld_def)
      qed
      with None show ?thesis by simp
    next
      case (Some y)
      from content [rule_format, OF Some] i have "d0 i = Some y" by auto
      with Some show ?thesis by simp
    qed
  qed
qed

lemma pages_two:
  "fetchPage_overwrite [blankRow 1, blankRow 2] 0 = [blankRow 1, blankRow 2]"
  "fetchPage_overwrite [blankRow 1, blankRow 2] 2 = []"
  "fetchPage_prefilter [blankRow 1, blankRow 2] 0 = [blankRow 1, blankRow 2]"
  "fetchPage_prefilter [blankRow 1, blankRow 2] 2 = []"
  by (simp_all add: fetchPage_overwrite_def fetchPage_prefilter_def BATCH_SIZE_def)

lemma run_overwrite_two:
  "main_overwrite 3 (okEnv 0) [blankRow 1, blankRow 2] [1 \<mapsto> syncedRow 1] =
     Some \<lparr>exitCode = 0,
           finalVars = \<lparr>lastId = 2, totalProcessed = 2, totalUpserted = 2, totalErrors = 0\<rparr>,
           finalWorld = \<lparr>destTable = [1 \<mapsto> blankDest 1, 2 \<mapsto> blankDest 2], tick = 6,
             trace = [Count, Count, Fetch 0, Upsert [blankDest 1, blankDest 2], Fetch 2, Count]\<rparr>\<rparr>"
  by (simp add: main_overwrite_okEnv numeral_3_eq_3 body_overwrite_okEnv pages_two transformRow_blankRow
      initialVars_def initialWorld_def called_def finish_def exitWith_def)

lemma run_prefilter_two_first:
  "main_prefilter 3 (okEnv 0) [blankRow 1, blankRow 2] [1 \<mapsto> syncedRow 1] =
     Some \<lparr>exitCode = 0,
           finalVars = \<lparr>lastId = 2, totalProcessed = 2, totalUpserted = 1, totalErrors = 0\<rparr>,
           finalWorld = \<lparr>destTable = [1 \<mapsto> syncedRow 1, 2 \<mapsto> blankDest 2], tick = 7,
             trace = [Count, Count, Fetch 0, Exists [1, 2], Upsert [blankDest 2], Fetch 2, Count]\<rparr>\<rparr>"
  by (simp add: main_prefilter_okEnv numeral_3_eq_3 body_prefilter_okEnv pages_two transformRow_blankRow
      initialVars_def initialWorld_def called_def finish_def exitWith_def)

lemma run_prefilter_two_second:
  "main_prefilter 3 (okEnv 0) [blankRow 1, blankRow 2] [1 \<mapsto> syncedRow 1, 2 \<mapsto> blankDest 2] =
     Some \<lparr>exitCode = 0,
           finalVars = \<lparr>lastId = 2, totalProcessed = 2, totalUpserted = 0, totalErrors = 0\<rparr>,
           finalWorld = \<lparr>destTable = [1 \<mapsto> syncedRow 1, 2 \<mapsto> blankDest 2], tick = 6,
             trace = [Count, Count, Fetch 0, Exists [1, 2], Fetch 2, Count]\<rparr>\<rparr>"
  by (simp add: main_prefilter_okEnv numeral_3_eq_3 body_prefilter_okEnv pages_two transformRow_blankRow
      initialVars_def initialWorld_def called_def finish_def exitWith_def)

lemma run_overwrite_zero:
  "main_overwrite 2 (okEnv 0) [blankRow 0] [0 \<mapsto> syncedRow 0] =
     Some \<lparr>exitCode = 0,
           finalVars = \<lparr>lastId = 0, totalProcessed = 0, totalUpserted = 0, totalErrors = 0\<rparr>,
           finalWorld = \<lparr>destTable = [0 \<mapsto> syncedRow 0], tick = 4,
             trace = [Count, Count, Fetch 0, Count]\<rparr>\<rparr>"
  by (simp add: main_overwrite_okEnv numeral_2_eq_2 body_overwrite_okEnv fetchPage_overwrite_def
      initialVars_def initialWorld_def called_def finish_def exitWith_def)

section \<open>parseAdDate and the time zone of the process\<close>

text \<open>
  C1. The spec's vector \<^verbatim>\<open>parseAdDate("Started running on 5 Jan 2023")\<close> names the date
  \<^verbatim>\<open>2023-01-05\<close>. The program reads the token as local midnight and prints the date of
  that instant in UTC: in a process seven hours east of Greenwich (\<^verbatim>\<open>TZ=Asia/Bangkok\<close>,
  offset 420 minutes) the result is the day before. At UTC, and at every offset west of
  it, the vectors of the spec hold (\<open>parseAdDate_vectors_utc\<close>, \<open>parseAdDate_5_Jan_west\<close>);
  at every offset east of it the date is a day early (\<open>parseAdDate_5_Jan_east\<close>).
\<close>

theorem parseAdDate_utc_plus_7:
  "parseAdDate 420 (JStr ''Started running on 5 Jan 2023'') = Inr (Some ''2023-01-04'', None)"
  by (simp add: parseAdDate_def matchDate_5_Jan matchTime_5_Jan dateParse_5_Jan iso_4_Jan
      splitT0_def del: matchDate.simps matchTime.simps)

section \<open>Integer coercion in transformRow\<close>

text \<open>
  C2. The numeric-as-text fields \<^verbatim>\<open>ad_id\<close>, \<^verbatim>\<open>ad_risk_level\<close> and \<^verbatim>\<open>request_id\<close> should
  map the text \<^verbatim>\<open>"0"\<close> to the integer 0. In the program \<^verbatim>\<open>parseInt("0", 10) || null\<close> is
  \<^verbatim>\<open>null\<close>, since 0 is falsy: all three fields of the destination record are null. No
  integer field of a destination record is ever 0 (\<open>intField_never_zero\<close>).
\<close>

theorem transformRow_zero_text:
  "intField (JStr ''0'') = None
   \<and> map_sum id (\<lambda>d. (dst_ad_id d, dst_ad_risk_level d, dst_request_id d))
        (transformRow tz (row\<lparr>src_ad_date := JNull, src_ad_id := JStr ''0'',
           src_ad_risk_level := JStr ''0'', src_request_id := JStr ''0''\<rparr>))
      = Inr (None, None, None)"
  by (simp add: transformRow_def parseAdDate_def intField_zero)

section \<open>The opensearch_sync flag\<close>

text \<open>
  C3. Every destination record that transformRow produces has \<^verbatim>\<open>opensearch_sync = false\<close>,
  for every source row and in every time zone; and when a transformed batch is upserted,
  the destination row of every source row of the batch has the flag false afterwards,
  whatever the destination held under that key before.
\<close>

theorem transformRow_opensearch_sync_false:
  "(\<forall>tz row d. transformRow tz row = Inr d \<longrightarrow> \<not> dst_opensearch_sync d) \<and>
   (\<forall>tz rows ds d0 r. mapE (transformRow tz) rows = Inr ds \<longrightarrow> r \<in> set rows \<longrightarrow>
      (\<exists>d. upsert d0 ds (src_id r) = Some d \<and> dst_id d = src_id r \<and> \<not> dst_opensearch_sync d))"
proof (intro conjI allI impI)
  fix tz row d
  assume "transformRow tz row = Inr d"
  then show "\<not> dst_opensearch_sync d" by (rule transformRow_sync)
next
  fix tz rows ds d0 r
  assume m: "mapE (transformRow tz) rows = Inr ds" and r: "r \<in> set rows"
  from m have ids: "map dst_id ds = map src_id rows" by (rule transformed_ids)
  have "dst_id ` set ds = src_id ` set rows"
    using ids by (metis set_map)
  with r have "src_id r \<in> dst_id ` set ds" by blast
  with transformed_sync [OF m]
  show "\<exists>d. upsert d0 ds (src_id r) = Some d \<and> dst_id d = src_id r \<and> \<not> dst_opensearch_sync d"
    using upsert_hit [of ds "\<lambda>d. \<not> dst_opensearch_sync d" "src_id r" d0] by blast
qed

theorem transformRow_opensearch_sync_false_witness:
  "transformRow 0 (blankRow 7) = Inr (blankDest 7) \<and> \<not> dst_opensearch_sync (blankDest 7) \<and>
   mapE (transformRow 0) [blankRow 7] = Inr [blankDest 7] \<and> blankRow 7 \<in> set [blankRow 7] \<and>
   (\<exists>d. upsert (Map.empty(7 \<mapsto> (blankDest 7)\<lparr>dst_opensearch_sync := True\<rparr>)) [blankDest 7]
           (src_id (blankRow 7)) = Some d \<and> dst_id d = src_id (blankRow 7)
         \<and> \<not> dst_opensearch_sync d)"
proof -
  have t: "transformRow 0 (blankRow 7) = Inr (blankDest 7)" by (rule transformRow_blankRow)
  have m: "mapE (transformRow 0) [blankRow 7] = Inr [blankDest 7]" by (simp add: t)
  have r: "blankRow 7 \<in> set [blankRow 7]" by simp
  from transformRow_opensearch_sync_false t m r show ?thesis by blast
qed

section \<open>transformRow never raises on a text or absent ad_date\<close>

text \<open>
  A truthy \<^verbatim>\<open>ad_date\<close> that is no string has no \<^verbatim>\<open>match\<close> method, and transformRow raises.
\<close>

lemma transformRow_raises: "transformRow tz (row\<lparr>src_ad_date := JBool True\<rparr>) = Inl TypeError"
  by (simp add: transformRow_def parseAdDate_def)

text \<open>
  C4. For a source row whose \<^verbatim>\<open>ad_date\<close> is a string or absent (\<^verbatim>\<open>undefined\<close> or NULL),
  transformRow returns a destination record and raises nothing, in every time zone. The
  record has the key of the row, and every parsing failure has become a null field:
  \<^item> no integer field holds NaN, and a field whose text \<^verbatim>\<open>parseInt\<close> reads as NaN (an absent
    field too) is null;
  \<^item> \<^verbatim>\<open>ad_date\<close> is null when the text is absent, when it holds no date token, and when the
    token is no valid date; a date that is not null is the date part of \<^verbatim>\<open>toISOString\<close> of
    the valid date the token names;
  \<^item> \<^verbatim>\<open>active_time_hr\<close> is null when the text is absent or holds no duration.
\<close>

theorem transformRow_total:
  assumes "src_ad_date row = JUndefined \<or> src_ad_date row = JNull \<or> (\<exists>s. src_ad_date row = JStr s)"
  shows "\<exists>d. transformRow tz row = Inr d \<and> dst_id d = src_id row
           \<and> dst_ad_id d \<noteq> Some JNaN \<and> dst_ad_risk_level d \<noteq> Some JNaN
           \<and> dst_request_id d \<noteq> Some JNaN \<and> dst_active_time_hr d \<noteq> Some JNaN
           \<and> (parseInt10 (ToString (src_ad_id row)) = JNaN \<longrightarrow> dst_ad_id d = None)
           \<and> (parseInt10 (ToString (src_ad_risk_level row)) = JNaN \<longrightarrow> dst_ad_risk_level d = None)
           \<and> (parseInt10 (ToString (src_request_id row)) = JNaN \<longrightarrow> dst_request_id d = None)
           \<and> (\<not> truthy (src_ad_date row) \<longrightarrow> dst_ad_date d = None \<and> dst_active_time_hr d = None)
           \<and> (\<forall>s. src_ad_date row = JStr s \<longrightarrow>
                 (matchDate s = None \<longrightarrow> dst_ad_date d = None)
               \<and> (\<forall>tok. matchDate s = Some tok \<longrightarrow> dateParse tz tok = None \<longrightarrow> dst_ad_date d = None)
               \<and> (\<forall>x. dst_ad_date d = Some x \<longrightarrow>
                    (\<exists>tok ms isoText. matchDate s = Some tok \<and> dateParse tz tok = Some ms
                       \<and> toISOString (Some ms) = Inr isoText \<and> x = splitT0 isoText))
               \<and> (matchTime s = None \<longrightarrow> dst_active_time_hr d = None))"
proof -
  from parseAdDate_string_or_absent [OF assms, of tz]
  obtain date hrs where p: "parseAdDate tz (src_ad_date row) = Inr (date, hrs)"
    and h: "hrs \<noteq> Some JNaN" by blast
  let ?d = "\<lparr>dst_id = src_id row,
               dst_keyword = jsOr (src_keyword row) JNull,
               dst_ad_id = intField (src_ad_id row),
               dst_ad_url = jsOr (src_ad_url row) JNull,
               dst_page_url = jsOr (src_page_url row) JNull,
               dst_ad_date = date,
               dst_active_time_hr = hrs,
               dst_ad_name = jsOr (src_ad_name row) JNull,
               dst_ad_profile_url = jsOr (src_ad_profile_url row) JNull,
               dst_ad_caption = jsOr (src_ad_caption row) JNull,
               dst_ad_links = jsOr (src_ad_links row) JNull,
               dst_image_urls = jsOr (src_image_urls row) JNull,
               dst_video_urls = jsOr (src_video_urls row) JNull,
               dst_collected_at = jsOr (src_collected_at row) JNull,
               dst_ad_risk_level = intField (src_ad_risk_level row),
               dst_ad_risk_reason = jsOr (src_ad_risk_reason row) JNull,
               dst_request_id = intField (src_request_id row),
               dst_opensearch_sync = False\<rparr>"
  have t: "transformRow tz row = Inr ?d" by (simp add: transformRow_def p)
  have absent: "\<not> truthy (src_ad_date row) \<longrightarrow> date = None \<and> hrs = None"
    using p parseAdDate_absent [of "src_ad_date row" tz] by auto
  have txt1: "\<forall>s. src_ad_date row = JStr s \<longrightarrow>
                 (matchDate s = None \<longrightarrow> date = None)
               \<and> (\<forall>tok. matchDate s = Some tok \<longrightarrow> dateParse tz tok = None \<longrightarrow> date = None)
               \<and> (\<forall>x. date = Some x \<longrightarrow>
                    (\<exists>tok ms isoText. matchDate s = Some tok \<and> dateParse tz tok = Some ms
                       \<and> toISOString (Some ms) = Inr isoText \<and> x = splitT0 isoText))
               \<and> (matchTime s = None \<longrightarrow> hrs = None)"
    using p parseAdDate_text [of tz _ date hrs] by auto
  show ?thesis
    apply (rule exI [of _ ?d])
    apply (simp only: t)
    using h absent txt1 by (simp add: intField_not_NaN intField_failure)
qed

theorem transformRow_total_witness:
  "src_ad_date malformedRow = JStr ''Started running on 35 Foo 2023''
   \<and> parseInt10 (ToString (src_ad_id malformedRow)) = JNaN
   \<and> parseInt10 (ToString (src_ad_risk_level malformedRow)) = JNaN
   \<and> matchDate ''Started running on 35 Foo 2023'' = Some ''35 Foo 2023''
   \<and> dateParse 0 ''35 Foo 2023'' = None
   \<and> matchTime ''Started running on 35 Foo 2023'' = None
   \<and> (\<exists>d. transformRow 0 malformedRow = Inr d \<and> dst_id d = 3
        \<and> dst_ad_id d = None \<and> dst_ad_risk_level d = None \<and> dst_ad_date d = None
        \<and> dst_active_time_hr d = None \<and> dst_request_id d \<noteq> Some JNaN)"
proof -
  have a: "src_ad_date malformedRow = JStr ''Started running on 35 Foo 2023''"
    and i: "src_id malformedRow = 3"
    by (simp_all add: malformedRow_def blankRow_def)
  have n1: "parseInt10 (ToString (src_ad_id malformedRow)) = JNaN"
    by (simp add: malformedRow_def blankRow_def parseInt10_def startsWith_def char_defs Let_def)
  have n2: "parseInt10 (ToString (src_ad_risk_level malformedRow)) = JNaN"
    by (simp add: malformedRow_def blankRow_def parseInt10_def startsWith_def char_defs Let_def)
  note m = matchDate_malformed
  have dp: "dateParse 0 ''35 Foo 2023'' = None" by (rule dateParse_malformed)
  from a have "src_ad_date malformedRow = JUndefined \<or> src_ad_date malformedRow = JNull
      \<or> (\<exists>s. src_ad_date malformedRow = JStr s)" by simp
  from transformRow_total [OF this, of 0] obtain d where
    d: "transformRow 0 malformedRow = Inr d" "dst_id d = src_id malformedRow"
      "dst_request_id d \<noteq> Some JNaN"
      "parseInt10 (ToString (src_ad_id malformedRow)) = JNaN \<longrightarrow> dst_ad_id d = None"
      "parseInt10 (ToString (src_ad_risk_level malformedRow)) = JNaN \<longrightarrow> dst_ad_risk_level d = None"
      "\<forall>s. src_ad_date malformedRow = JStr s \<longrightarrow>
                 (matchDate s = None \<longrightarrow> dst_ad_date d = None)
               \<and> (\<forall>tok. matchDate s = Some tok \<longrightarrow> dateParse 0 tok = None \<longrightarrow> dst_ad_date d = None)
               \<and> (\<forall>x. dst_ad_date d = Some x \<longrightarrow>
                    (\<exists>tok ms isoText. matchDate s = Some tok \<and> dateParse 0 tok = Some ms
                       \<and> toISOString (Some ms) = Inr isoText \<and> x = splitT0 isoText))
               \<and> (matchTime s = None \<longrightarrow> dst_active_time_hr d = None)"
    by blast
  from d(6) a m dp have "dst_ad_date d = None" "dst_active_time_hr d = None" by blast+
  with d(1-5) n1 n2 i a m dp show ?thesis by auto
qed

section \<open>Running the migration twice\<close>




section \<open>Insert-new-only, and where the program breaks it\<close>

text \<open>
  C6. Under the pre-filter variant a row whose id is in the destination before a batch
  should be left as it is. The run below has one source row, with id 1, and a
  destination that holds an indexed row with id 1; the existence query resolves with an
  error payload. The program takes no id for existing, upserts the row and so replaces
  the destination row and resets its flag. When the existence query succeeds, the rows
  that were there are left as they were (\<open>prefilter_keeps_existing_rows\<close>).
\<close>

theorem prefilter_run_resets_existing_row:
  "main_prefilter 2 existsFailsEnv [blankRow 1] [1 \<mapsto> syncedRow 1] =
     Some \<lparr>exitCode = 0,
           finalVars = \<lparr>lastId = 1, totalProcessed = 1, totalUpserted = 1, totalErrors = 0\<rparr>,
           finalWorld = \<lparr>destTable = [1 \<mapsto> blankDest 1], tick = 7,
             trace = [Count, Count, Fetch 0, Exists [1], Upsert [blankDest 1], Fetch 1, Count]\<rparr>\<rparr>
   \<and> syncedRow 1 \<noteq> blankDest 1"
proof -
  let ?E = existsFailsEnv
  let ?d0 = "[1 \<mapsto> syncedRow 1]"
  let ?w = "called Count (called Count (initialWorld ?d0))"
  let ?v1 = "\<lparr>lastId = 1, totalProcessed = 1, totalUpserted = 1, totalErrors = 0\<rparr>"
  let ?w1 = "\<lparr>destTable = [1 \<mapsto> blankDest 1], tick = 5,
      trace = [Count, Count, Fetch 0, Exists [1], Upsert [blankDest 1]]\<rparr>"
  have m: "main_prefilter (Suc (Suc 0)) ?E [blankRow 1] ?d0
      = runLoop (body_prefilter ?E [blankRow 1]) (Suc (Suc 0)) initialVars ?w"
    unfolding main_prefilter_def by (rule mainWith_counts_ok) (simp_all add: existsFailsEnv_def)
  have step1: "body_prefilter ?E [blankRow 1] initialVars ?w = Next ?v1 ?w1"
    by (simp add: body_prefilter_def answer_def upsertWithRetry_ok1 prefilter_page1 initialVars_def
        transformRow_blankRow existsFailsEnv_def existingOf_def initialWorld_def Let_def called_def)
  have step2: "body_prefilter ?E [blankRow 1] ?v1 ?w1 = Done (finish ?E ?v1 (called (Fetch 1) ?w1))"
    by (simp add: body_prefilter_done answer_def existsFailsEnv_def prefilter_page2)
  have "main_prefilter 2 ?E [blankRow 1] ?d0 = Some (finish ?E ?v1 (called (Fetch 1) ?w1))"
    unfolding numeral_2_eq_2 m by (simp only: runLoop.simps step1 step2 step.case)
  moreover have "syncedRow 1 \<noteq> blankDest 1"
    by (simp add: syncedRow_def blankDest_def)
  ultimately show ?thesis
    by (simp add: finish_def exitWith_def answer_def existsFailsEnv_def called_def)
qed

section \<open>The retry contract of the write\<close>

text \<open>
  C7. upsertWithRetry makes one, two or three attempts, and sleeps RETRY_DELAY = 1000 ms
  before each attempt after the first. When all three attempts fail (an error payload or
  an exception), it returns the failure with the message of the last attempt and the
  destination table is as it was. In \<^verbatim>\<open>main\<close> such a batch adds one to the error count,
  and the loop goes on with the cursor at the last id of the page.
\<close>

theorem upsertWithRetry_bounded:
  "(\<forall>env data w.
      trace (snd (upsertWithRetry env data MAX_RETRIES w)) \<in>
        {trace w @ [Upsert data],
         trace w @ [Upsert data, Sleep 1000, Upsert data],
         trace w @ [Upsert data, Sleep 1000, Upsert data, Sleep 1000, Upsert data]})
   \<and> (\<forall>env data w.
        reply env (tick w) \<noteq> Ok \<longrightarrow> reply env (tick w + 1) \<noteq> Ok \<longrightarrow> reply env (tick w + 2) \<noteq> Ok \<longrightarrow>
        upsertWithRetry env data MAX_RETRIES w =
          (Some \<lparr>success = False, error = Some (messageOf (reply env (tick w + 2)))\<rparr>,
           w\<lparr>tick := tick w + 3,
             trace := trace w @ [Upsert data, Sleep 1000, Upsert data, Sleep 1000, Upsert data]\<rparr>))
   \<and> (\<forall>env src v w rows transformed newRecords.
        answer env w = Ok \<longrightarrow> fetchPage_prefilter src (lastId v) = rows \<longrightarrow> rows \<noteq> [] \<longrightarrow>
        mapE (transformRow (localOffset env)) rows = Inr transformed \<longrightarrow>
        (\<forall>m. reply env (tick w + 1) \<noteq> Throw m) \<longrightarrow>
        filter (\<lambda>record. dst_id record \<notin>
            set (existingOf (reply env (tick w + 1)) (destTable w) (map src_id rows)))
          transformed = newRecords \<longrightarrow>
        newRecords \<noteq> [] \<longrightarrow>
        reply env (tick w + 2) \<noteq> Ok \<longrightarrow> reply env (tick w + 3) \<noteq> Ok \<longrightarrow>
        reply env (tick w + 4) \<noteq> Ok \<longrightarrow>
        body_prefilter env src v w =
          Next (v\<lparr>totalProcessed := totalProcessed v + length rows,
                  lastId := src_id (last rows),
                  totalErrors := totalErrors v + 1\<rparr>)
               (w\<lparr>tick := tick w + 5,
                  trace := trace w @ [Fetch (lastId v), Exists (map src_id rows),
                    Upsert newRecords, Sleep 1000, Upsert newRecords, Sleep 1000,
                    Upsert newRecords]\<rparr>))"
proof (intro conjI allI impI)
  fix env data w
  show "trace (snd (upsertWithRetry env data MAX_RETRIES w)) \<in>
        {trace w @ [Upsert data],
         trace w @ [Upsert data, Sleep 1000, Upsert data],
         trace w @ [Upsert data, Sleep 1000, Upsert data, Sleep 1000, Upsert data]}"
    using upsertWithRetry_trace by blast
next
  fix env :: env and data :: "dest_row list" and w :: world
  assume "reply env (tick w) \<noteq> Ok" "reply env (tick w + 1) \<noteq> Ok" "reply env (tick w + 2) \<noteq> Ok"
  then show "upsertWithRetry env data MAX_RETRIES w =
          (Some \<lparr>success = False, error = Some (messageOf (reply env (tick w + 2)))\<rparr>,
           w\<lparr>tick := tick w + 3,
             trace := trace w @ [Upsert data, Sleep 1000, Upsert data, Sleep 1000, Upsert data]\<rparr>)"
    by (rule upsertWithRetry_fail)
next
  fix env :: env and src :: "source_row list" and v :: vars and w :: world
    and rows :: "source_row list" and transformed newRecords :: "dest_row list"
  assume ok: "answer env w = Ok"
    and rows: "fetchPage_prefilter src (lastId v) = rows" "rows \<noteq> []"
    and tr: "mapE (transformRow (localOffset env)) rows = Inr transformed"
    and ex: "\<forall>m. reply env (tick w + 1) \<noteq> Throw m"
    and new: "filter (\<lambda>record. dst_id record \<notin>
            set (existingOf (reply env (tick w + 1)) (destTable w) (map src_id rows)))
          transformed = newRecords" "newRecords \<noteq> []"
    and f: "reply env (tick w + 2) \<noteq> Ok" "reply env (tick w + 3) \<noteq> Ok"
      "reply env (tick w + 4) \<noteq> Ok"
  let ?w2 = "called (Exists (map src_id rows)) (called (Fetch (lastId v)) w)"
  have t: "tick ?w2 = tick w + 2" by simp
  have "upsertWithRetry env newRecords MAX_RETRIES ?w2 =
          (Some \<lparr>success = False, error = Some (messageOf (reply env (tick ?w2 + 2)))\<rparr>,
           ?w2\<lparr>tick := tick ?w2 + 3,
             trace := trace ?w2 @ [Upsert newRecords, Sleep 1000, Upsert newRecords, Sleep 1000,
               Upsert newRecords]\<rparr>)"
  proof -
    have e1: "tick ?w2 + 1 = tick w + 3" and e2: "tick ?w2 + 2 = tick w + 4" by simp_all
    have f0: "reply env (tick ?w2) \<noteq> Ok" using f(1) t by metis
    have f1: "reply env (tick ?w2 + 1) \<noteq> Ok" using f(2) e1 by metis
    have f2: "reply env (tick ?w2 + 2) \<noteq> Ok" using f(3) e2 by metis
    show ?thesis by (rule upsertWithRetry_fail [OF f0 f1 f2])
  qed
  moreover have "body_prefilter env src v w =
     (case upsertWithRetry env newRecords MAX_RETRIES ?w2 of
        (None, w3) \<Rightarrow> Done (exitWith 1 v w3)
      | (Some retryResult, w3) \<Rightarrow>
          (if error retryResult \<noteq> None
           then Next (v\<lparr>totalProcessed := totalProcessed v + length rows,
                       lastId := src_id (last rows),
                       totalErrors := totalErrors v + 1\<rparr>) w3
           else Next (v\<lparr>totalProcessed := totalProcessed v + length rows,
                       lastId := src_id (last rows),
                       totalUpserted := totalUpserted v + length newRecords\<rparr>) w3))"
    using ok rows tr ex new by (intro body_prefilter_upsert) simp_all
  ultimately show "body_prefilter env src v w =
          Next (v\<lparr>totalProcessed := totalProcessed v + length rows,
                  lastId := src_id (last rows),
                  totalErrors := totalErrors v + 1\<rparr>)
               (w\<lparr>tick := tick w + 5,
                  trace := trace w @ [Fetch (lastId v), Exists (map src_id rows),
                    Upsert newRecords, Sleep 1000, Upsert newRecords, Sleep 1000,
                    Upsert newRecords]\<rparr>)"
    by (simp add: called_def)
qed

theorem upsertWithRetry_bounded_witness:
  "reply upsertFailsEnv 4 \<noteq> Ok \<and> reply upsertFailsEnv 5 \<noteq> Ok \<and> reply upsertFailsEnv 6 \<noteq> Ok
   \<and> upsertWithRetry upsertFailsEnv [blankDest 1] MAX_RETRIES
         \<lparr>destTable = Map.empty, tick = 4, trace = [Count, Count, Fetch 0, Exists [1]]\<rparr>
       = (Some \<lparr>success = False, error = Some ''write conflict''\<rparr>,
          \<lparr>destTable = Map.empty, tick = 7,
            trace = [Count, Count, Fetch 0, Exists [1], Upsert [blankDest 1], Sleep 1000,
              Upsert [blankDest 1], Sleep 1000, Upsert [blankDest 1]]\<rparr>)
   \<and> body_prefilter upsertFailsEnv [blankRow 1] initialVars
         \<lparr>destTable = Map.empty, tick = 2, trace = [Count, Count]\<rparr>
       = Next \<lparr>lastId = 1, totalProcessed = 1, totalUpserted = 0, totalErrors = 1\<rparr>
           \<lparr>destTable = Map.empty, tick = 7,
            trace = [Count, Count, Fetch 0, Exists [1], Upsert [blankDest 1], Sleep 1000,
              Upsert [blankDest 1], Sleep 1000, Upsert [blankDest 1]]\<rparr>
   \<and> main_prefilter 2 upsertFailsEnv [blankRow 1] Map.empty =
     Some \<lparr>exitCode = 1,
           finalVars = \<lparr>lastId = 1, totalProcessed = 1, totalUpserted = 0, totalErrors = 1\<rparr>,
           finalWorld = \<lparr>destTable = Map.empty, tick = 9,
             trace = [Count, Count, Fetch 0, Exists [1], Upsert [blankDest 1], Sleep 1000,
               Upsert [blankDest 1], Sleep 1000, Upsert [blankDest 1], Fetch 1, Count]\<rparr>\<rparr>"
proof -
  let ?E = upsertFailsEnv
  let ?w = "\<lparr>destTable = Map.empty, tick = 2, trace = [Count, Count]\<rparr>"
  let ?w2 = "\<lparr>destTable = Map.empty, tick = 4, trace = [Count, Count, Fetch 0, Exists [1]]\<rparr>"
  have r: "reply ?E 4 \<noteq> Ok" "reply ?E 5 \<noteq> Ok" "reply ?E 6 \<noteq> Ok" "reply ?E 2 = Ok"
    "reply ?E 3 = Ok"
    by (simp_all add: upsertFailsEnv_def)
  have m6: "messageOf (reply ?E 6) = ''write conflict''"
    by (simp add: upsertFailsEnv_def messageOf_def)
  from upsertWithRetry_bounded
  have fail: "reply ?E (tick ?w2) \<noteq> Ok \<longrightarrow> reply ?E (tick ?w2 + 1) \<noteq> Ok
      \<longrightarrow> reply ?E (tick ?w2 + 2) \<noteq> Ok \<longrightarrow>
        upsertWithRetry ?E [blankDest 1] MAX_RETRIES ?w2 =
          (Some \<lparr>success = False, error = Some (messageOf (reply ?E (tick ?w2 + 2)))\<rparr>,
           ?w2\<lparr>tick := tick ?w2 + 3,
             trace := trace ?w2 @ [Upsert [blankDest 1], Sleep 1000, Upsert [blankDest 1],
               Sleep 1000, Upsert [blankDest 1]]\<rparr>)"
    by blast
  have a: "upsertWithRetry ?E [blankDest 1] MAX_RETRIES ?w2
       = (Some \<lparr>success = False, error = Some ''write conflict''\<rparr>,
          \<lparr>destTable = Map.empty, tick = 7,
            trace = [Count, Count, Fetch 0, Exists [1], Upsert [blankDest 1], Sleep 1000,
              Upsert [blankDest 1], Sleep 1000, Upsert [blankDest 1]]\<rparr>)"
    using fail r m6 by simp
  from upsertWithRetry_bounded
  have step: "answer ?E ?w = Ok \<longrightarrow> fetchPage_prefilter [blankRow 1] (lastId initialVars) = [blankRow 1]
      \<longrightarrow> [blankRow 1] \<noteq> [] \<longrightarrow>
        mapE (transformRow (localOffset ?E)) [blankRow 1] = Inr [blankDest 1] \<longrightarrow>
        (\<forall>m. reply ?E (tick ?w + 1) \<noteq> Throw m) \<longrightarrow>
        filter (\<lambda>record. dst_id record \<notin>
            set (existingOf (reply ?E (tick ?w + 1)) (destTable ?w) (map src_id [blankRow 1])))
          [blankDest 1] = [blankDest 1] \<longrightarrow>
        [blankDest 1] \<noteq> [] \<longrightarrow>
        reply ?E (tick ?w + 2) \<noteq> Ok \<longrightarrow> reply ?E (tick ?w + 3) \<noteq> Ok \<longrightarrow>
        reply ?E (tick ?w + 4) \<noteq> Ok \<longrightarrow>
        body_prefilter ?E [blankRow 1] initialVars ?w =
          Next (initialVars\<lparr>totalProcessed := totalProcessed initialVars + length [blankRow 1],
                  lastId := src_id (last [blankRow 1]),
                  totalErrors := totalErrors initialVars + 1\<rparr>)
               (?w\<lparr>tick := tick ?w + 5,
                  trace := trace ?w @ [Fetch (lastId initialVars), Exists (map src_id [blankRow 1]),
                    Upsert [blankDest 1], Sleep 1000, Upsert [blankDest 1], Sleep 1000,
                    Upsert [blankDest 1]]\<rparr>)"
    by blast
  have b: "body_prefilter ?E [blankRow 1] initialVars ?w
       = Next \<lparr>lastId = 1, totalProcessed = 1, totalUpserted = 0, totalErrors = 1\<rparr>
           \<lparr>destTable = Map.empty, tick = 7,
            trace = [Count, Count, Fetch 0, Exists [1], Upsert [blankDest 1], Sleep 1000,
              Upsert [blankDest 1], Sleep 1000, Upsert [blankDest 1]]\<rparr>"
    using step r
    by (simp add: answer_def initialVars_def prefilter_page1 transformRow_blankRow existingOf_def
        upsertFailsEnv_def)
  from r(1-3) a b run_upsert_fails show ?thesis by simp
qed

section \<open>Skip-and-advance and its threshold\<close>

text \<open>
  C8, after a failed upsert. The property counts fetch failures: every fetch error is to
  go on with the loop, and the run is to abort on the eleventh consecutive one. The
  program has one counter, \<^verbatim>\<open>totalErrors\<close>, which a failed upsert raises too and which
  nothing resets. In the run below the first upsert fails and every later fetch fails:
  the run aborts on the tenth failed fetch, at cursor 9001.
\<close>

theorem shared_counter_aborts_on_tenth_fetch_failure:
  "main_overwrite 11 lateFailuresEnv [blankRow 1] Map.empty =
     Some \<lparr>exitCode = 1,
           finalVars = \<lparr>lastId = 10001, totalProcessed = 1, totalUpserted = 0, totalErrors = 11\<rparr>,
           finalWorld = \<lparr>destTable = Map.empty, tick = 15,
             trace = [Count, Count, Fetch 0, Upsert [blankDest 1],
                      Fetch 1, Fetch 1001, Fetch 2001, Fetch 3001, Fetch 4001,
                      Fetch 5001, Fetch 6001, Fetch 7001, Fetch 8001, Fetch 9001, Count]\<rparr>\<rparr>"
  by (rule run_late_failures)

text \<open>
  C8, as the program has it. In \<^verbatim>\<open>migrate_records.js\<close>:
  \<^item> a fetch that resolves with an error adds one to \<^verbatim>\<open>totalErrors\<close> and BATCH_SIZE = 1000
    to the cursor; the loop goes on if the count is then at most 10 and stops if it
    exceeds 10;
  \<^item> an upsert that resolves with an error adds one to the same count, and the loop goes
    on with the cursor at the last id of the page, whatever the count;
  \<^item> a run that stops with an error counted exits with code 1;
  \<^item> from any point of a run where the count is at most 10, if the next
    \<open>11 - totalErrors\<close> requests fail, the run ends with exit code 1 after exactly those
    fetches, one page-width apart: nothing more is processed or written;
  \<^item> so a run whose first eleven fetches all fail ends with exit code 1 after exactly those
    eleven fetches, at cursors 0, 1000, ..., 10000, and the destination table is as it was.
\<close>

theorem skip_and_advance_threshold:
  "(\<forall>env src v w m. answer env w = Err m \<longrightarrow>
      body_overwrite env src v w =
        (if 10 < totalErrors v + 1
         then Done (finish env (v\<lparr>totalErrors := totalErrors v + 1, lastId := lastId v + 1000\<rparr>)
                     (called (Fetch (lastId v)) w))
         else Next (v\<lparr>totalErrors := totalErrors v + 1, lastId := lastId v + 1000\<rparr>)
                (called (Fetch (lastId v)) w)))
   \<and> (\<forall>env src v w m ds.
        answer env w = Ok \<longrightarrow> fetchPage_overwrite src (lastId v) \<noteq> [] \<longrightarrow>
        mapE (transformRow (localOffset env)) (fetchPage_overwrite src (lastId v)) = Inr ds \<longrightarrow>
        answer env (called (Fetch (lastId v)) w) = Err m \<longrightarrow>
        body_overwrite env src v w =
          Next (v\<lparr>totalErrors := totalErrors v + 1,
                  totalProcessed := totalProcessed v + length (fetchPage_overwrite src (lastId v)),
                  lastId := src_id (last (fetchPage_overwrite src (lastId v)))\<rparr>)
               (called (Upsert ds) (called (Fetch (lastId v)) w)))
   \<and> (\<forall>env v w. 0 < totalErrors v \<longrightarrow> exitCode (finish env v w) = 1)
   \<and> (\<forall>env src v w n.
        totalErrors v \<le> 10 \<longrightarrow>
        (\<forall>j<11 - totalErrors v. \<exists>m. reply env (tick w + j) = Err m) \<longrightarrow>
        (\<exists>res. runLoop (body_overwrite env src) (11 - totalErrors v + n) v w = Some res
           \<and> exitCode res = 1 \<and> totalErrors (finalVars res) = 11
           \<and> lastId (finalVars res) = lastId v + 1000 * int (11 - totalErrors v)
           \<and> totalProcessed (finalVars res) = totalProcessed v
           \<and> totalUpserted (finalVars res) = totalUpserted v
           \<and> destTable (finalWorld res) = destTable w
           \<and> trace (finalWorld res)
               = trace w @ map (\<lambda>j. Fetch (lastId v + 1000 * int j)) [0..<11 - totalErrors v]
                   @ [Count]))
   \<and> (\<forall>env src d0 fuel.
        reply env 0 = Ok \<longrightarrow> (\<forall>m. reply env 1 \<noteq> Throw m) \<longrightarrow>
        (\<forall>j<11. \<exists>m. reply env (2 + j) = Err m) \<longrightarrow> 11 \<le> fuel \<longrightarrow>
        (\<exists>res. main_overwrite fuel env src d0 = Some res \<and> exitCode res = 1
           \<and> totalErrors (finalVars res) = 11 \<and> lastId (finalVars res) = 11000
           \<and> totalProcessed (finalVars res) = 0 \<and> totalUpserted (finalVars res) = 0
           \<and> destTable (finalWorld res) = d0
           \<and> trace (finalWorld res)
               = [Count, Count] @ map (\<lambda>j. Fetch (1000 * int j)) [0..<11] @ [Count]))"
proof (intro conjI allI impI)
  fix env src v w m
  assume "answer env w = Err m"
  then show "body_overwrite env src v w =
        (if 10 < totalErrors v + 1
         then Done (finish env (v\<lparr>totalErrors := totalErrors v + 1, lastId := lastId v + 1000\<rparr>)
                     (called (Fetch (lastId v)) w))
         else Next (v\<lparr>totalErrors := totalErrors v + 1, lastId := lastId v + 1000\<rparr>)
                (called (Fetch (lastId v)) w))"
    by (rule body_overwrite_fetch_error)
next
  fix env :: env and src :: "source_row list" and v :: vars and w :: world
    and m :: string and ds :: "dest_row list"
  assume "answer env w = Ok" and "fetchPage_overwrite src (lastId v) \<noteq> []"
    and "mapE (transformRow (localOffset env)) (fetchPage_overwrite src (lastId v)) = Inr ds"
    and "answer env (called (Fetch (lastId v)) w) = Err m"
  then show "body_overwrite env src v w =
          Next (v\<lparr>totalErrors := totalErrors v + 1,
                  totalProcessed := totalProcessed v + length (fetchPage_overwrite src (lastId v)),
                  lastId := src_id (last (fetchPage_overwrite src (lastId v)))\<rparr>)
               (called (Upsert ds) (called (Fetch (lastId v)) w))"
    by (rule body_overwrite_upsert_error)
next
  fix env :: env and v :: vars and w :: world
  assume "0 < totalErrors v"
  then show "exitCode (finish env v w) = 1" by (rule finish_exitCode)
next
  fix env :: env and src :: "source_row list" and v :: vars and w :: world and n :: nat
  assume "totalErrors v \<le> 10"
    and "\<forall>j<11 - totalErrors v. \<exists>m. reply env (tick w + j) = Err m"
  then show "\<exists>res. runLoop (body_overwrite env src) (11 - totalErrors v + n) v w = Some res
           \<and> exitCode res = 1 \<and> totalErrors (finalVars res) = 11
           \<and> lastId (finalVars res) = lastId v + 1000 * int (11 - totalErrors v)
           \<and> totalProcessed (finalVars res) = totalProcessed v
           \<and> totalUpserted (finalVars res) = totalUpserted v
           \<and> destTable (finalWorld res) = destTable w
           \<and> trace (finalWorld res)
               = trace w @ map (\<lambda>j. Fetch (lastId v + 1000 * int j)) [0..<11 - totalErrors v]
                   @ [Count]"
    by (rule fetch_errors_abort_result)
next
  fix env :: env and src :: "source_row list" and d0 :: dest_table and fuel :: nat
  assume c0: "reply env 0 = Ok" and c1: "\<forall>m. reply env 1 \<noteq> Throw m"
    and errs: "\<forall>j<11. \<exists>m. reply env (2 + j) = Err m" and fuel: "11 \<le> fuel"
  let ?w = "called Count (called Count (initialWorld d0))"
  obtain n where n: "fuel = 11 - totalErrors initialVars + n"
    using fuel by (auto simp: initialVars_def le_iff_add)
  have t: "tick ?w = 2" by (simp add: initialWorld_def)
  have e: "\<forall>j<11 - totalErrors initialVars. \<exists>m. reply env (tick ?w + j) = Err m"
    using errs by (simp add: initialWorld_def initialVars_def)
  have "main_overwrite fuel env src d0 = runLoop (body_overwrite env src) fuel initialVars ?w"
    unfolding main_overwrite_def using c0 c1 by (rule mainWith_counts_ok)
  also have "\<dots> = Some (finish env
           (initialVars\<lparr>totalErrors := 11,
              lastId := lastId initialVars + 1000 * int (11 - totalErrors initialVars)\<rparr>)
           (?w\<lparr>tick := tick ?w + (11 - totalErrors initialVars),
              trace := trace ?w @ map (\<lambda>j. Fetch (lastId initialVars + 1000 * int j))
                                   [0..<11 - totalErrors initialVars]\<rparr>))"
    unfolding n by (rule fetch_errors_abort [OF _ e]) (simp add: initialVars_def)
  finally show "\<exists>res. main_overwrite fuel env src d0 = Some res \<and> exitCode res = 1
           \<and> totalErrors (finalVars res) = 11 \<and> lastId (finalVars res) = 11000
           \<and> totalProcessed (finalVars res) = 0 \<and> totalUpserted (finalVars res) = 0
           \<and> destTable (finalWorld res) = d0
           \<and> trace (finalWorld res)
               = [Count, Count] @ map (\<lambda>j. Fetch (1000 * int j)) [0..<11] @ [Count]"
    by (simp add: finish_exitCode initialVars_def initialWorld_def)
qed

theorem skip_and_advance_threshold_witness:
  "answer fetchFailsEnv (called Count (called Count (initialWorld Map.empty))) = Err ''connection reset''
   \<and> body_overwrite fetchFailsEnv [blankRow 1] initialVars
        (called Count (called Count (initialWorld Map.empty)))
      = Next (initialVars\<lparr>totalErrors := 1, lastId := 1000\<rparr>)
          (called (Fetch 0) (called Count (called Count (initialWorld Map.empty))))
   \<and> body_overwrite lateFailuresEnv [blankRow 1] initialVars
        (called Count (called Count (initialWorld Map.empty)))
      = Next \<lparr>lastId = 1, totalProcessed = 1, totalUpserted = 0, totalErrors = 1\<rparr>
          \<lparr>destTable = Map.empty, tick = 4, trace = [Count, Count, Fetch 0, Upsert [blankDest 1]]\<rparr>
   \<and> exitCode (finish fetchFailsEnv (initialVars\<lparr>totalErrors := 1\<rparr>) (initialWorld Map.empty)) = 1
   \<and> (\<exists>res. runLoop (body_overwrite lateFailuresEnv [blankRow 1]) 10
            \<lparr>lastId = 1, totalProcessed = 1, totalUpserted = 0, totalErrors = 1\<rparr>
            \<lparr>destTable = Map.empty, tick = 4,
               trace = [Count, Count, Fetch 0, Upsert [blankDest 1]]\<rparr> = Some res
        \<and> exitCode res = 1 \<and> totalErrors (finalVars res) = 11 \<and> lastId (finalVars res) = 10001
        \<and> trace (finalWorld res)
            = [Count, Count, Fetch 0, Upsert [blankDest 1]]
                @ map (\<lambda>j. Fetch (1 + 1000 * int j)) [0..<10] @ [Count])
   \<and> (\<exists>res. main_overwrite 11 fetchFailsEnv [blankRow 1] Map.empty = Some res \<and> exitCode res = 1
        \<and> totalErrors (finalVars res) = 11 \<and> lastId (finalVars res) = 11000
        \<and> destTable (finalWorld res) = Map.empty
        \<and> trace (finalWorld res)
            = [Count, Count] @ map (\<lambda>j. Fetch (1000 * int j)) [0..<11] @ [Count])"
proof -
  let ?w = "called Count (called Count (initialWorld Map.empty))"
  let ?v1 = "\<lparr>lastId = 1, totalProcessed = 1, totalUpserted = 0, totalErrors = 1\<rparr>"
  let ?w1 = "\<lparr>destTable = Map.empty, tick = 4,
      trace = [Count, Count, Fetch 0, Upsert [blankDest 1]]\<rparr> :: world"
  note T = skip_and_advance_threshold
  note T1 = T [THEN conjunct1, rule_format]
  note T2 = T [THEN conjunct2, THEN conjunct1, rule_format]
  note T3 = T [THEN conjunct2, THEN conjunct2, THEN conjunct1, rule_format]
  note T4 = T [THEN conjunct2, THEN conjunct2, THEN conjunct2, THEN conjunct1, rule_format]
  note T5 = T [THEN conjunct2, THEN conjunct2, THEN conjunct2, THEN conjunct2]
  have a: "answer fetchFailsEnv ?w = Err ''connection reset''"
    by (simp add: answer_def fetchFailsEnv_def initialWorld_def)
  have s1: "body_overwrite fetchFailsEnv [blankRow 1] initialVars ?w
      = Next (initialVars\<lparr>totalErrors := 1, lastId := 1000\<rparr>) (called (Fetch 0) ?w)"
    using T1 [OF a, of "[blankRow 1]" initialVars] by (simp add: initialVars_def)
  have b1: "answer lateFailuresEnv ?w = Ok"
    and b2: "fetchPage_overwrite [blankRow 1] (lastId initialVars) \<noteq> []"
    and b3: "mapE (transformRow (localOffset lateFailuresEnv))
               (fetchPage_overwrite [blankRow 1] (lastId initialVars)) = Inr [blankDest 1]"
    and b4: "answer lateFailuresEnv (called (Fetch (lastId initialVars)) ?w) = Err ''connection reset''"
    by (simp_all add: answer_def lateFailuresEnv_def initialWorld_def initialVars_def
        page_blankRow1 transformRow_blankRow)
  have s2: "body_overwrite lateFailuresEnv [blankRow 1] initialVars ?w = Next ?v1 ?w1"
    using T2 [OF b1 b2 b3 b4]
    by (simp add: initialVars_def initialWorld_def called_def page_blankRow1)
  have s3: "exitCode (finish fetchFailsEnv (initialVars\<lparr>totalErrors := 1\<rparr>) (initialWorld Map.empty)) = 1"
    by (rule T3) simp
  have e: "totalErrors ?v1 \<le> 10"
    "\<And>j. j < 11 - totalErrors ?v1 \<Longrightarrow> \<exists>m. reply lateFailuresEnv (tick ?w1 + j) = Err m"
    by (simp_all add: lateFailuresEnv_def)
  have s4: "\<exists>res. runLoop (body_overwrite lateFailuresEnv [blankRow 1]) 10 ?v1 ?w1 = Some res
        \<and> exitCode res = 1 \<and> totalErrors (finalVars res) = 11 \<and> lastId (finalVars res) = 10001
        \<and> trace (finalWorld res)
            = [Count, Count, Fetch 0, Upsert [blankDest 1]]
                @ map (\<lambda>j. Fetch (1 + 1000 * int j)) [0..<10] @ [Count]"
    using T4 [OF e, of "[blankRow 1]" 0] by auto
  have c0: "reply fetchFailsEnv 0 = Ok" and c1: "\<forall>m. reply fetchFailsEnv 1 \<noteq> Throw m"
    and errs: "\<forall>j<11. \<exists>m. reply fetchFailsEnv (2 + j) = Err m"
    by (simp_all add: fetchFailsEnv_def)
  have s5: "\<exists>res. main_overwrite 11 fetchFailsEnv [blankRow 1] Map.empty = Some res \<and> exitCode res = 1
        \<and> totalErrors (finalVars res) = 11 \<and> lastId (finalVars res) = 11000
        \<and> destTable (finalWorld res) = Map.empty
        \<and> trace (finalWorld res)
            = [Count, Count] @ map (\<lambda>j. Fetch (1000 * int j)) [0..<11] @ [Count]"
    using T5 c0 c1 errs by blast
  from a s1 s2 s3 s4 s5 show ?thesis by (intro conjI)
qed

section \<open>An existence query that resolves with an error payload\<close>

text \<open>
  C9. In \<^verbatim>\<open>part_000\<close>, when the existence query resolves with an error payload, the set
  of existing ids is empty, the retry branch is not taken (no sleep of 2000 ms in the
  trace), and the whole transformed page is upserted: afterwards the destination row of
  every source row of the page has \<^verbatim>\<open>opensearch_sync = false\<close>, whatever it held before.
\<close>

theorem prefilter_error_payload_upserts_all:
  assumes "answer env w = Ok" and "fetchPage_prefilter src (lastId v) = rows" and "rows \<noteq> []"
    and "mapE (transformRow (localOffset env)) rows = Inr transformed"
    and "reply env (tick w + 1) = Err m" and "reply env (tick w + 2) = Ok"
  shows "existingOf (reply env (tick w + 1)) (destTable w) (map src_id rows) = []
    \<and> body_prefilter env src v w =
        Next (v\<lparr>totalProcessed := totalProcessed v + length rows,
                lastId := src_id (last rows),
                totalUpserted := totalUpserted v + length transformed\<rparr>)
             (w\<lparr>destTable := upsert (destTable w) transformed, tick := tick w + 3,
                trace := trace w @ [Fetch (lastId v), Exists (map src_id rows),
                  Upsert transformed]\<rparr>)
    \<and> (\<forall>r\<in>set rows. \<exists>d. upsert (destTable w) transformed (src_id r) = Some d
           \<and> dst_id d = src_id r \<and> \<not> dst_opensearch_sync d)"
proof (intro conjI)
  show none: "existingOf (reply env (tick w + 1)) (destTable w) (map src_id rows) = []"
    using assms(5) by (simp add: existingOf_def)
  let ?w2 = "called (Exists (map src_id rows)) (called (Fetch (lastId v)) w)"
  have ne: "transformed \<noteq> []"
    using mapE_length [OF assms(4)] assms(3) by auto
  have new: "filter (\<lambda>record. dst_id record \<notin>
            set (existingOf (reply env (Suc (tick w))) (destTable w) (map src_id rows)))
          transformed = transformed"
    using none by simp
  have ex: "\<forall>m. reply env (Suc (tick w)) \<noteq> Throw m" using assms(5) by simp
  have up: "upsertWithRetry env transformed MAX_RETRIES ?w2 =
     (Some \<lparr>success = True, error = None\<rparr>,
      ?w2\<lparr>destTable := upsert (destTable ?w2) transformed, tick := tick ?w2 + 1,
        trace := trace ?w2 @ [Upsert transformed]\<rparr>)"
    using assms(6) by (intro upsertWithRetry_ok1) simp
  show "body_prefilter env src v w =
        Next (v\<lparr>totalProcessed := totalProcessed v + length rows,
                lastId := src_id (last rows),
                totalUpserted := totalUpserted v + length transformed\<rparr>)
             (w\<lparr>destTable := upsert (destTable w) transformed, tick := tick w + 3,
                trace := trace w @ [Fetch (lastId v), Exists (map src_id rows),
                  Upsert transformed]\<rparr>)"
    by (simp add: body_prefilter_upsert [OF assms(1-4) ex new ne] up)
  show "\<forall>r\<in>set rows. \<exists>d. upsert (destTable w) transformed (src_id r) = Some d
           \<and> dst_id d = src_id r \<and> \<not> dst_opensearch_sync d"
  proof
    fix r assume r: "r \<in> set rows"
    have "dst_id ` set transformed = src_id ` set rows"
      using transformed_ids [OF assms(4)] by (metis set_map)
    with r have "src_id r \<in> dst_id ` set transformed" by blast
    with transformed_sync [OF assms(4)]
    show "\<exists>d. upsert (destTable w) transformed (src_id r) = Some d
           \<and> dst_id d = src_id r \<and> \<not> dst_opensearch_sync d"
      using upsert_hit [of transformed "\<lambda>d. \<not> dst_opensearch_sync d" "src_id r" "destTable w"]
      by blast
  qed
qed

theorem prefilter_error_payload_upserts_all_witness:
  "answer existsFailsEnv \<lparr>destTable = [1 \<mapsto> syncedRow 1], tick = 2, trace = [Count, Count]\<rparr> = Ok
   \<and> reply existsFailsEnv 3 = Err ''timeout'' \<and> reply existsFailsEnv 4 = Ok
   \<and> body_prefilter existsFailsEnv [blankRow 1] initialVars
         \<lparr>destTable = [1 \<mapsto> syncedRow 1], tick = 2, trace = [Count, Count]\<rparr>
       = Next \<lparr>lastId = 1, totalProcessed = 1, totalUpserted = 1, totalErrors = 0\<rparr>
           \<lparr>destTable = [1 \<mapsto> blankDest 1], tick = 5,
            trace = [Count, Count, Fetch 0, Exists [1], Upsert [blankDest 1]]\<rparr>
   \<and> dst_opensearch_sync (syncedRow 1) \<and> \<not> dst_opensearch_sync (blankDest 1)"
proof -
  let ?E = existsFailsEnv
  let ?w = "\<lparr>destTable = [1 \<mapsto> syncedRow 1], tick = 2, trace = [Count, Count]\<rparr>"
  have a: "answer ?E ?w = Ok" and r3: "reply ?E (tick ?w + 1) = Err ''timeout''"
    and r4: "reply ?E (tick ?w + 2) = Ok"
    by (simp_all add: answer_def existsFailsEnv_def)
  have p: "fetchPage_prefilter [blankRow 1] (lastId initialVars) = [blankRow 1]"
    by (simp add: initialVars_def prefilter_page1)
  have t: "mapE (transformRow (localOffset ?E)) [blankRow 1] = Inr [blankDest 1]"
    by (rule mapE_blankRow)
  from prefilter_error_payload_upserts_all [OF a p _ t r3 r4]
  have "body_prefilter ?E [blankRow 1] initialVars ?w =
        Next (initialVars\<lparr>totalProcessed := totalProcessed initialVars + length [blankRow 1],
                lastId := src_id (last [blankRow 1]),
                totalUpserted := totalUpserted initialVars + length [blankDest 1]\<rparr>)
             (?w\<lparr>destTable := upsert (destTable ?w) [blankDest 1], tick := tick ?w + 3,
                trace := trace ?w @ [Fetch (lastId initialVars), Exists (map src_id [blankRow 1]),
                  Upsert [blankDest 1]]\<rparr>)"
    by simp
  then have "body_prefilter ?E [blankRow 1] initialVars ?w
       = Next \<lparr>lastId = 1, totalProcessed = 1, totalUpserted = 1, totalErrors = 0\<rparr>
           \<lparr>destTable = [1 \<mapsto> blankDest 1], tick = 5,
            trace = [Count, Count, Fetch 0, Exists [1], Upsert [blankDest 1]]\<rparr>"
    by (simp add: initialVars_def)
  with a r3 r4 show ?thesis by (simp add: blankDest_def)
qed

section \<open>The two batch queries\<close>

text \<open>
  C10. The first pages of the two programs are the same exactly when every source id is
  positive. \<^verbatim>\<open>migrate_records.js\<close> filters \<^verbatim>\<open>id > lastId\<close> on every fetch: from a cursor
  that is not negative it fetches only rows with a positive id, and a run leaves the
  destination without any change under every key that is zero or negative. \<^verbatim>\<open>part_000\<close>
  filters only when \<^verbatim>\<open>lastId > 0\<close>, where the two queries agree; its unfiltered first
  page holds the rows of the least ids, whatever their sign.
\<close>

theorem fetchers_agree_iff_positive:
  "(fetchPage_overwrite src 0 = fetchPage_prefilter src 0 \<longleftrightarrow> (\<forall>r\<in>set src. 0 < src_id r))
   \<and> (0 < cursor \<longrightarrow> fetchPage_overwrite src cursor = fetchPage_prefilter src cursor)
   \<and> (0 \<le> cursor \<longrightarrow> (\<forall>r\<in>set (fetchPage_overwrite src cursor). 0 < src_id r))
   \<and> (main_overwrite fuel env src d0 = Some res \<longrightarrow> i \<le> 0 \<longrightarrow>
        destTable (finalWorld res) i = d0 i)"
proof (intro conjI impI)
  show "fetchPage_overwrite src 0 = fetchPage_prefilter src 0 \<longleftrightarrow> (\<forall>r\<in>set src. 0 < src_id r)"
    by (rule first_pages_agree_iff)
next
  assume "0 < cursor"
  then show "fetchPage_overwrite src cursor = fetchPage_prefilter src cursor"
    by (simp add: fetchPage_same_filter)
next
  assume "0 \<le> cursor"
  then show "\<forall>r\<in>set (fetchPage_overwrite src cursor). 0 < src_id r"
    using fetchPage_overwrite_set by fastforce
next
  assume "main_overwrite fuel env src d0 = Some res" and "i \<le> 0"
  then show "destTable (finalWorld res) i = d0 i"
    by (rule main_overwrite_skips_nonpositive)
qed

theorem fetchers_agree_iff_positive_witness:
  "fetchPage_overwrite [blankRow 1, blankRow 0] 0 = [blankRow 1]
   \<and> fetchPage_prefilter [blankRow 1, blankRow 0] 0 = [blankRow 0, blankRow 1]
   \<and> fetchPage_overwrite [blankRow 1, blankRow 0] 0 \<noteq> fetchPage_prefilter [blankRow 1, blankRow 0] 0
   \<and> fetchPage_overwrite [blankRow 1, blankRow 0] 1 = fetchPage_prefilter [blankRow 1, blankRow 0] 1
   \<and> (\<exists>res. main_overwrite 2 (okEnv 0) [blankRow 1, blankRow 0] Map.empty = Some res
        \<and> destTable (finalWorld res) 0 = None
        \<and> destTable (finalWorld res) 1 = Some (blankDest 1))"
proof -
  let ?src = "[blankRow 1, blankRow 0]"
  let ?res = "\<lparr>exitCode = 0,
           finalVars = \<lparr>lastId = 1, totalProcessed = 1, totalUpserted = 1, totalErrors = 0\<rparr>,
           finalWorld = \<lparr>destTable = [1 \<mapsto> blankDest 1], tick = 6,
             trace = [Count, Count, Fetch 0, Upsert [blankDest 1], Fetch 1, Count]\<rparr>\<rparr>"
  have run: "main_overwrite 2 (okEnv 0) ?src Map.empty = Some ?res"
    by (rule run_overwrite_example)
  have neg: "\<not> (\<forall>r\<in>set ?src. 0 < src_id r)" by simp
  from fetchers_agree_iff_positive [of ?src 1 2 "okEnv 0" Map.empty ?res 0] run neg
  have "fetchPage_overwrite ?src 0 \<noteq> fetchPage_prefilter ?src 0"
    and "fetchPage_overwrite ?src 1 = fetchPage_prefilter ?src 1"
    and "destTable (finalWorld ?res) 0 = Map.empty 0"
    by simp_all
  with run page1 page1p show ?thesis by simp
qed

end
